(* ===== verification/Prelude.thy ===== *)
theory Prelude
  imports Main
begin

text \<open>
  Shared vocabulary of the Movie-app development: JavaScript strings as \<open>string\<close>
  (one \<open>char\<close> per UTF-16 code unit of the ASCII range), the JavaScript operations the
  sources use on them (\<open>String.prototype.trim\<close>, truthiness, template interpolation of
  numbers), and the generic list lemmas the component theories share.
\<close>

named_theorems js_defs "definitions of the modelled JavaScript built-ins"

section \<open>JavaScript strings\<close>

text \<open>
  \<open>String.prototype.trim\<close> removes WhiteSpace and LineTerminator code units from both
  ends. In the ASCII range these are TAB, LF, VT, FF, CR and SPACE.
\<close>

definition is_js_ws :: "char \<Rightarrow> bool" where
  "is_js_ws c \<longleftrightarrow> of_char c \<in> {9, 10, 11, 12, 13, 32 :: nat}"

definition js_trim :: "string \<Rightarrow> string" where
  "js_trim s = rev (dropWhile is_js_ws (rev (dropWhile is_js_ws s)))"

text \<open>A string is truthy in JavaScript exactly when it is not empty.\<close>

definition js_truthy_str :: "string \<Rightarrow> bool" where
  "js_truthy_str s \<longleftrightarrow> s \<noteq> []"

declare is_js_ws_def [js_defs] js_trim_def [js_defs] js_truthy_str_def [js_defs]

text \<open>A template literal interpolates an absent optional property as \<open>undefined\<close>.\<close>

fun js_template_opt :: "string option \<Rightarrow> string" where
  "js_template_opt None = ''undefined''"
| "js_template_opt (Some s) = s"

section \<open>Numbers in template literals\<close>

text \<open>
  \<open>`${n}`\<close> for a non-negative integral number prints its decimal digits.
\<close>

definition digit_char :: "nat \<Rightarrow> char" where
  "digit_char d = char_of (48 + d)"

fun string_of_nat :: "nat \<Rightarrow> string" where
  "string_of_nat n =
     (if n < 10 then [digit_char n] else string_of_nat (n div 10) @ [digit_char (n mod 10)])"

declare string_of_nat.simps [simp del]

text \<open>Reading decimal digits back, the inverse used for the round-trip lemma.\<close>

fun nat_of_digits :: "nat \<Rightarrow> string \<Rightarrow> nat" where
  "nat_of_digits acc [] = acc"
| "nat_of_digits acc (c # cs) = nat_of_digits (10 * acc + (of_char c - 48)) cs"

section \<open>Lemmas\<close>

lemma dropWhile_Nil_iff [simp]: "dropWhile P xs = [] \<longleftrightarrow> (\<forall>x\<in>set xs. P x)"
  by (induction xs) auto

lemma js_trim_Nil_iff: "js_trim s = [] \<longleftrightarrow> (\<forall>c\<in>set s. is_js_ws c)"
proof -
  have "js_trim s = [] \<longleftrightarrow> (\<forall>c\<in>set (dropWhile is_js_ws s). is_js_ws c)"
    by (simp add: js_trim_def)
  also have "\<dots> \<longleftrightarrow> (\<forall>c\<in>set s. is_js_ws c)"
    by (induction s) auto
  finally show ?thesis .
qed

lemma nat_of_digits_append:
  "nat_of_digits acc (xs @ ys) = nat_of_digits (nat_of_digits acc xs) ys"
  by (induction xs arbitrary: acc) auto

lemma of_char_digit_char [simp]: "d < 10 \<Longrightarrow> of_char (digit_char d) = 48 + d"
  by (simp add: digit_char_def)

lemma string_of_nat_digits:
  "nat_of_digits acc (string_of_nat n) = (if n < 10 then 10 * acc + n else
     10 * nat_of_digits acc (string_of_nat (n div 10)) + n mod 10)"
  by (subst string_of_nat.simps) (simp add: nat_of_digits_append)

lemma string_of_nat_roundtrip: "nat_of_digits 0 (string_of_nat n) = n"
proof (induction n rule: string_of_nat.induct)
  case (1 n)
  show ?case
  proof (cases "n < 10")
    case True
    then show ?thesis by (simp add: string_of_nat_digits)
  next
    case False
    with "1.IH" show ?thesis by (simp add: string_of_nat_digits)
  qed
qed

lemma string_of_nat_not_Nil [simp]: "string_of_nat n \<noteq> []"
  by (subst string_of_nat.simps) simp

end
