(* ===== verification/UseFetch.thy ===== *)
theory UseFetch
  imports Prelude
begin

text \<open>
  The fetch-state controller of \<^verbatim>\<open>src/services/useFetch.ts\<close>: the React state triple
  \<open>{data, loading, error}\<close> as a record, the two halves of the asynchronous
  \<open>fetchData\<close> (before and after its \<open>await\<close>), \<open>reset\<close>, and the mount effect that
  starts a fetch when \<open>autoFetch\<close> holds. Because \<open>fetchData\<close> suspends at
  \<open>await fetchFunction()\<close>, several calls can be in flight at once; the controller record
  keeps them in the order they started and a settlement event names the call it ends.
  The design the specification asks for (a generation counter that discards stale
  settlements, spec sections 4.1 and 5) is defined at the end as \<open>gen_controller\<close>, and
  the code is related to it.
\<close>

section \<open>State and data\<close>

text \<open>A thrown JavaScript value: an \<open>Error\<close> instance (kept by its message) or anything else.\<close>

datatype thrown = ThrownError string | ThrownValue

text \<open>How the awaited \<open>fetchFunction()\<close> settles.\<close>

datatype 'a outcome = Resolved 'a | Rejected thrown

text \<open>The three \<open>useState\<close> cells; an \<open>Error\<close> object is represented by its message.\<close>

record 'a fetch_state =
  data :: "'a option"
  loading :: bool
  error :: "string option"

definition init_fetch_state :: "'a fetch_state" where
  "init_fetch_state = \<lparr>data = None, loading = False, error = None\<rparr>"

definition generic_error_msg :: string where
  "generic_error_msg = ''Une erreur est survenue''"

text \<open>\<open>err instanceof Error ? err : new Error('Une erreur est survenue')\<close>\<close>

fun normalize_error :: "thrown \<Rightarrow> string" where
  "normalize_error (ThrownError m) = m"
| "normalize_error ThrownValue = generic_error_msg"

section \<open>Operations\<close>

text \<open>\<open>fetchData\<close> up to its suspension: \<open>setLoading(true); setError(null)\<close>.\<close>

definition fetchData_start :: "'a fetch_state \<Rightarrow> 'a fetch_state" where
  "fetchData_start st = st\<lparr>loading := True, error := None\<rparr>"

text \<open>
  \<open>fetchData\<close> after \<open>await fetchFunction()\<close> settles: \<open>setData(result)\<close> on success,
  \<open>setError(...)\<close> on failure, and \<open>setLoading(false)\<close> in \<open>finally\<close> on both paths.
\<close>

fun fetchData_settle :: "'a fetch_state \<Rightarrow> 'a outcome \<Rightarrow> 'a fetch_state" where
  "fetchData_settle st (Resolved r) = st\<lparr>data := Some r, loading := False\<rparr>"
| "fetchData_settle st (Rejected t) =
     st\<lparr>error := Some (normalize_error t), loading := False\<rparr>"

text \<open>One whole call of \<open>fetchData\<close> when nothing interleaves with it.\<close>

definition fetchData :: "'a fetch_state \<Rightarrow> 'a outcome \<Rightarrow> 'a fetch_state" where
  "fetchData st out = fetchData_settle (fetchData_start st) out"

definition reset :: "'a fetch_state \<Rightarrow> 'a fetch_state" where
  "reset st = st\<lparr>data := None, loading := False, error := None\<rparr>"

section \<open>The controller with calls in flight\<close>

text \<open>
  \<open>inflight\<close> lists the calls of \<open>fetchData\<close> that have passed their \<open>await\<close> and
  not settled, each with a number and a payload \<open>'c\<close> (what the producer was asked for;
  the search screen stores its query there). \<open>next_call\<close> numbers the next call.
\<close>

record ('a, 'c) controller =
  fstate :: "'a fetch_state"
  inflight :: "(nat \<times> 'c) list"
  next_call :: nat

datatype ('a, 'c) ctl_event = Trigger 'c | Settle nat "'a outcome" | Reset

definition ctl_empty :: "('a, 'c) controller" where
  "ctl_empty = \<lparr>fstate = init_fetch_state, inflight = [], next_call = 0\<rparr>"

text \<open>\<open>refetch()\<close>, i.e. a call of \<open>fetchData\<close> up to its \<open>await\<close>.\<close>

definition ctl_trigger :: "('a, 'c) controller \<Rightarrow> 'c \<Rightarrow> ('a, 'c) controller" where
  "ctl_trigger k c =
     k\<lparr>fstate := fetchData_start (fstate k),
       inflight := inflight k @ [(next_call k, c)],
       next_call := Suc (next_call k)\<rparr>"

definition in_flight :: "('a, 'c) controller \<Rightarrow> nat \<Rightarrow> bool" where
  "in_flight k i \<longleftrightarrow> i \<in> set (map fst (inflight k))"

text \<open>The continuation of call \<open>i\<close>; no check of staleness is made before it writes.\<close>

definition ctl_settle :: "('a, 'c) controller \<Rightarrow> nat \<Rightarrow> 'a outcome \<Rightarrow> ('a, 'c) controller" where
  "ctl_settle k i out =
     (if in_flight k i
      then k\<lparr>fstate := fetchData_settle (fstate k) out,
             inflight := filter (\<lambda>p. fst p \<noteq> i) (inflight k)\<rparr>
      else k)"

fun ctl_step :: "('a, 'c) controller \<Rightarrow> ('a, 'c) ctl_event \<Rightarrow> ('a, 'c) controller" where
  "ctl_step k (Trigger c) = ctl_trigger k c"
| "ctl_step k (Settle i out) = ctl_settle k i out"
| "ctl_step k Reset = k\<lparr>fstate := reset (fstate k)\<rparr>"

fun ctl_run :: "('a, 'c) controller \<Rightarrow> ('a, 'c) ctl_event list \<Rightarrow> ('a, 'c) controller" where
  "ctl_run k [] = k"
| "ctl_run k (e # es) = ctl_run (ctl_step k e) es"

text \<open>Mounting the hook: the \<open>useEffect\<close> with empty dependencies calls \<open>fetchData\<close> once.\<close>

definition ctl_mount :: "bool \<Rightarrow> 'c \<Rightarrow> ('a, 'c) controller" where
  "ctl_mount autoFetch c = (if autoFetch then ctl_trigger ctl_empty c else ctl_empty)"

section \<open>The specified controller: generation-checked settlement\<close>

text \<open>
  Spec sections 4.1 and 5 ask for a generation token incremented by every \<open>trigger()\<close>
  and \<open>reset()\<close>; a settlement whose call carries an older generation is discarded. This
  is the abstract contract against which the code's controller is compared. Its state
  changes are written from the words of section 4.1, not from the code: \<open>trigger()\<close>
  sets \<open>loading\<close> and clears \<open>error\<close>; success sets \<open>data\<close> and clears
  \<open>loading\<close>; failure sets the normalised error, clears \<open>loading\<close> and leaves
  \<open>data\<close>; \<open>reset()\<close> sets all three to their initial values.
\<close>

text \<open>Error normalisation of section 4.1: an \<open>Error\<close> keeps its message, any other thrown
  value gets the generic message.\<close>

fun spec_error_info :: "thrown \<Rightarrow> string" where
  "spec_error_info (ThrownError msg) = msg"
| "spec_error_info ThrownValue = generic_error_msg"

record ('a, 'c) gen_controller =
  gstate :: "'a fetch_state"
  ginflight :: "(nat \<times> nat \<times> 'c) list"
  gnext :: nat
  gen :: nat

definition gen_empty :: "('a, 'c) gen_controller" where
  "gen_empty =
     \<lparr>gstate = \<lparr>data = None, loading = False, error = None\<rparr>, ginflight = [], gnext = 0, gen = 0\<rparr>"

fun gen_tag :: "(nat \<times> nat \<times> 'c) list \<Rightarrow> nat \<Rightarrow> nat option" where
  "gen_tag [] i = None"
| "gen_tag ((j, g, c) # ps) i = (if j = i then Some g else gen_tag ps i)"

fun gen_step :: "('a, 'c) gen_controller \<Rightarrow> ('a, 'c) ctl_event \<Rightarrow> ('a, 'c) gen_controller" where
  "gen_step k (Trigger c) =
     k\<lparr>gstate := (gstate k)\<lparr>loading := True, error := None\<rparr>,
       ginflight := ginflight k @ [(gnext k, Suc (gen k), c)],
       gnext := Suc (gnext k), gen := Suc (gen k)\<rparr>"
| "gen_step k (Settle i out) =
     (case gen_tag (ginflight k) i of
        None \<Rightarrow> k
      | Some g \<Rightarrow>
          k\<lparr>gstate := (if g \<noteq> gen k then gstate k
                       else case out of
                              Resolved r \<Rightarrow> (gstate k)\<lparr>data := Some r, loading := False\<rparr>
                            | Rejected t \<Rightarrow> (gstate k)\<lparr>error := Some (spec_error_info t), loading := False\<rparr>),
            ginflight := filter (\<lambda>p. fst p \<noteq> i) (ginflight k)\<rparr>)"
| "gen_step k Reset = k\<lparr>gstate := \<lparr>data = None, loading = False, error = None\<rparr>, gen := Suc (gen k)\<rparr>"

fun gen_run :: "('a, 'c) gen_controller \<Rightarrow> ('a, 'c) ctl_event list \<Rightarrow> ('a, 'c) gen_controller" where
  "gen_run k [] = k"
| "gen_run k (e # es) = gen_run (gen_step k e) es"

text \<open>Whether the specified controller would discard this event as a stale settlement.\<close>

fun gen_stale :: "('a, 'c) gen_controller \<Rightarrow> ('a, 'c) ctl_event \<Rightarrow> bool" where
  "gen_stale k (Settle i out) = (case gen_tag (ginflight k) i of None \<Rightarrow> False | Some g \<Rightarrow> g \<noteq> gen k)"
| "gen_stale k _ = False"

fun stale_free :: "('a, 'c) gen_controller \<Rightarrow> ('a, 'c) ctl_event list \<Rightarrow> bool" where
  "stale_free k [] = True"
| "stale_free k (e # es) = (\<not> gen_stale k e \<and> stale_free (gen_step k e) es)"

text \<open>The code's controller and the specified one, seen through the same calls.\<close>

definition ctl_sim :: "('a, 'c) controller \<Rightarrow> ('a, 'c) gen_controller \<Rightarrow> bool" where
  "ctl_sim k g \<longleftrightarrow>
     fstate k = gstate g \<and> inflight k = map (\<lambda>(i, t, c). (i, c)) (ginflight g) \<and>
     next_call k = gnext g"

section \<open>Invariant\<close>

text \<open>
  While \<open>loading\<close> is set some call is in flight, and the call numbers in flight are
  distinct and below \<open>next_call\<close>.
\<close>

definition ctl_inv :: "('a, 'c) controller \<Rightarrow> bool" where
  "ctl_inv k \<longleftrightarrow>
     (loading (fstate k) \<longrightarrow> inflight k \<noteq> []) \<and> distinct (map fst (inflight k)) \<and>
     (\<forall>i\<in>set (map fst (inflight k)). i < next_call k)"

lemmas fetch_state_defs = init_fetch_state_def fetchData_start_def fetchData_def reset_def
lemmas ctl_defs = ctl_empty_def ctl_trigger_def ctl_settle_def in_flight_def ctl_mount_def

section \<open>Lemmas on single operations\<close>

lemma fetchData_settle_not_loading [simp]: "\<not> loading (fetchData_settle st out)"
  by (cases out) simp_all

lemma fetchData_start_fields [simp]:
  "data (fetchData_start st) = data st" "loading (fetchData_start st)"
  "error (fetchData_start st) = None"
  by (simp_all add: fetchData_start_def)

lemma reset_fields [simp]:
  "data (reset st) = None" "\<not> loading (reset st)" "error (reset st) = None"
  by (simp_all add: reset_def)

lemma filter_fst_map_pairs:
  "filter (\<lambda>p. fst p \<noteq> i) (map (\<lambda>(j, t, c). (j, c)) ps) =
   map (\<lambda>(j, t, c). (j, c)) (filter (\<lambda>p. fst p \<noteq> i) ps)"
  by (induction ps) auto

lemma gen_tag_None_iff: "gen_tag ps i = None \<longleftrightarrow> i \<notin> set (map fst ps)"
  by (induction ps i rule: gen_tag.induct) auto

lemma map_fst_pairs [simp]: "map fst (map (\<lambda>(j, t, c). (j, c)) ps) = map fst ps"
  by (induction ps) auto

lemma ctl_step_inv: "ctl_inv k \<Longrightarrow> ctl_inv (ctl_step k e)"
proof (cases e)
  case (Trigger c)
  assume "ctl_inv k"
  then have "next_call k \<notin> set (map fst (inflight k))"
    by (auto simp: ctl_inv_def)
  with \<open>ctl_inv k\<close> Trigger show ?thesis
    by (auto simp: ctl_inv_def ctl_trigger_def)
next
  case (Settle i out)
  assume "ctl_inv k"
  then show ?thesis using Settle
    by (auto simp: ctl_inv_def ctl_settle_def distinct_map_filter)
next
  case Reset
  assume "ctl_inv k"
  then show ?thesis using Reset by (simp add: ctl_inv_def)
qed

lemma ctl_run_inv: "ctl_inv k \<Longrightarrow> ctl_inv (ctl_run k es)"
  by (induction es arbitrary: k) (simp_all add: ctl_step_inv)

lemma ctl_mount_inv: "ctl_inv (ctl_mount autoFetch c)"
  by (simp add: ctl_inv_def ctl_defs init_fetch_state_def)

lemma ctl_run_append: "ctl_run k (xs @ ys) = ctl_run (ctl_run k xs) ys"
  by (induction xs arbitrary: k) simp_all

lemma gen_run_append: "gen_run k (xs @ ys) = gen_run (gen_run k xs) ys"
  by (induction xs arbitrary: k) simp_all

text \<open>The code's normalisation is the one section 4.1 prescribes.\<close>

lemma normalize_error_spec: "normalize_error t = spec_error_info t"
  by (cases t) simp_all

lemma ctl_sim_step:
  assumes "ctl_sim k g" and "\<not> gen_stale g e"
  shows "ctl_sim (ctl_step k e) (gen_step g e)"
proof (cases e)
  case (Trigger c)
  with assms(1) show ?thesis
    by (simp add: ctl_sim_def ctl_trigger_def fetchData_start_def)
next
  case (Settle i out)
  have "map fst (inflight k) = map fst (ginflight g)"
    using assms(1) unfolding ctl_sim_def by (metis map_fst_pairs)
  then have fl: "in_flight k i \<longleftrightarrow> gen_tag (ginflight g) i \<noteq> None"
    by (simp only: in_flight_def gen_tag_None_iff) simp
  show ?thesis
  proof (cases "gen_tag (ginflight g) i")
    case None
    with fl Settle assms(1) show ?thesis by (simp add: ctl_settle_def)
  next
    case (Some t)
    with assms(2) Settle have "t = gen g" by simp
    with Some fl Settle assms(1) show ?thesis
      by (cases out) (simp_all add: ctl_sim_def ctl_settle_def filter_fst_map_pairs normalize_error_spec)
  qed
next
  case Reset
  with assms(1) show ?thesis by (simp add: ctl_sim_def reset_def)
qed

lemma ctl_sim_run:
  "ctl_sim k g \<Longrightarrow> stale_free g es \<Longrightarrow> ctl_sim (ctl_run k es) (gen_run g es)"
  by (induction es arbitrary: k g) (simp_all add: ctl_sim_step)

lemma ctl_sim_empty: "ctl_sim ctl_empty gen_empty"
  by (simp add: ctl_sim_def ctl_empty_def gen_empty_def init_fetch_state_def)

text \<open>C1: the generation-checked controller of the specification and the code agree on
  every trace in which no settlement is stale.\<close>

theorem ctl_refines_gen_controller:
  assumes "stale_free gen_empty es"
  shows "fstate (ctl_run ctl_empty es) = gstate (gen_run gen_empty es)"
  using ctl_sim_run [OF ctl_sim_empty assms] by (simp add: ctl_sim_def)

theorem ctl_refines_gen_controller_witness:
  "stale_free gen_empty
     [Trigger (), Settle 0 (Resolved (5::nat)), Reset, Trigger (), Settle 1 (Rejected ThrownValue)] \<and>
   fstate (ctl_run ctl_empty
     [Trigger (), Settle 0 (Resolved (5::nat)), Reset, Trigger (), Settle 1 (Rejected ThrownValue)]) =
   gstate (gen_run gen_empty
     [Trigger (), Settle 0 (Resolved (5::nat)), Reset, Trigger (), Settle 1 (Rejected ThrownValue)])"
proof -
  have h: "stale_free (gen_empty :: (nat, unit) gen_controller)
     [Trigger (), Settle 0 (Resolved (5::nat)), Reset, Trigger (), Settle 1 (Rejected ThrownValue)]"
    by (simp add: gen_empty_def)
  show ?thesis using h ctl_refines_gen_controller [OF h] by simp
qed

text \<open>C2: the code does not implement the generation check: a call that settles after
  \<open>reset()\<close> writes its result back, where the specified controller discards it.\<close>

theorem stale_settle_resurrects_data:
  "data (fstate (ctl_run ctl_empty [Trigger c, Reset, Settle 0 (Resolved r)])) = Some r \<and>
   data (gstate (gen_run gen_empty [Trigger c, Reset, Settle 0 (Resolved r)])) = None"
  by (simp add: ctl_defs gen_empty_def init_fetch_state_def)

text \<open>C15: in every state reachable from mounting the hook, \<open>loading\<close> implies a call in
  flight, and the calls in flight have distinct numbers below \<open>next_call\<close>.\<close>

theorem ctl_reachable_inv: "ctl_inv (ctl_run (ctl_mount autoFetch c) es)"
  by (rule ctl_run_inv [OF ctl_mount_inv])

theorem ctl_reachable_inv_witness:
  "loading (fstate (ctl_run (ctl_mount True ()) [Trigger ()] :: (nat, unit) controller)) \<and>
   inflight (ctl_run (ctl_mount True ()) [Trigger ()] :: (nat, unit) controller) \<noteq> [] \<and>
   distinct (map fst (inflight (ctl_run (ctl_mount True ()) [Trigger ()] :: (nat, unit) controller)))"
proof -
  have "loading (fstate (ctl_run (ctl_mount True ()) [Trigger ()] :: (nat, unit) controller))"
    by (simp add: ctl_defs)
  then show ?thesis using ctl_reachable_inv [of True "()" "[Trigger ()]"]
    unfolding ctl_inv_def by blast
qed

text \<open>C17: one uninterrupted call of \<open>fetchData\<close>: success stores the result and clears
  the error; failure stores the normalised error and keeps the previous data; both end
  with \<open>loading\<close> false; a thrown non-Error gets the generic message.\<close>

theorem fetchData_branches:
  "fetchData st (Resolved r) = \<lparr>data = Some r, loading = False, error = None\<rparr> \<and>
   fetchData st (Rejected t) = \<lparr>data = data st, loading = False, error = Some (normalize_error t)\<rparr> \<and>
   normalize_error ThrownValue = ''Une erreur est survenue''"
  by (simp add: fetchData_def fetchData_start_def generic_error_msg_def)

text \<open>C29: the last call to settle wins: whatever other calls are in flight, a successful
  settlement of an in-flight call leaves its result as \<open>data\<close> and clears \<open>loading\<close>.\<close>

theorem ctl_settle_last_wins:
  assumes "in_flight k i"
  shows "data (fstate (ctl_settle k i (Resolved r))) = Some r \<and>
         \<not> loading (fstate (ctl_settle k i (Resolved r))) \<and>
         \<not> in_flight (ctl_settle k i (Resolved r)) i"
  using assms by (auto simp: ctl_settle_def in_flight_def)

theorem ctl_settle_last_wins_witness:
  "in_flight (ctl_run (ctl_empty :: (nat, unit) controller) [Trigger (), Trigger ()]) 0 \<and>
   data (fstate (ctl_settle (ctl_run ctl_empty [Trigger (), Trigger ()]) 0 (Resolved (7::nat)))) = Some 7"
proof -
  have h: "in_flight (ctl_run (ctl_empty :: (nat, unit) controller) [Trigger (), Trigger ()]) 0"
    by (simp add: ctl_defs)
  show ?thesis using h ctl_settle_last_wins [OF h, of 7] by blast
qed

text \<open>C30: \<open>loading\<close> is cleared by the first settlement even though a later call is still
  in flight: with overlapping calls, \<open>loading\<close> does not track the calls in flight.\<close>

theorem loading_cleared_while_in_flight:
  "\<not> loading (fstate (ctl_run ctl_empty [Trigger a, Trigger b, Settle 0 out])) \<and>
   in_flight (ctl_run ctl_empty [Trigger a, Trigger b, Settle 0 out]) 1"
  by (simp add: ctl_defs)

lemma ctl_settle_inflight_subset:
  "set (map fst (inflight k)) \<subseteq> insert i (set ids) \<Longrightarrow>
   set (map fst (inflight (ctl_settle k i out))) \<subseteq> set ids"
  by (auto simp: ctl_settle_def in_flight_def)

text \<open>C3: liveness of \<open>loading\<close>: from any reachable state, once every call in flight
  has settled (in any order, whatever the outcomes, repeated settlements ignored), no call
  is in flight and \<open>loading\<close> is false.\<close>

theorem settle_all_clears_loading:
  assumes "ctl_inv k" and "set (map fst (inflight k)) \<subseteq> set ids"
  shows "inflight (ctl_run k (map (\<lambda>i. Settle i (outs i)) ids)) = [] \<and>
         \<not> loading (fstate (ctl_run k (map (\<lambda>i. Settle i (outs i)) ids)))"
  using assms
proof (induction ids arbitrary: k)
  case Nil
  then show ?case by (simp add: ctl_inv_def)
next
  case (Cons i ids)
  have "ctl_inv (ctl_settle k i (outs i))"
    using ctl_step_inv [OF Cons.prems(1), of "Settle i (outs i)"] by simp
  moreover have "set (map fst (inflight (ctl_settle k i (outs i)))) \<subseteq> set ids"
    using Cons.prems(2) by (intro ctl_settle_inflight_subset) simp
  ultimately show ?case using Cons.IH by simp
qed

theorem settle_all_clears_loading_witness:
  "inflight (ctl_run (ctl_run (ctl_mount True ()) [Trigger ()])
               (map (\<lambda>i. Settle i (Resolved (i::nat))) [1, 0, 1])) = [] \<and>
   \<not> loading (fstate (ctl_run (ctl_run (ctl_mount True ()) [Trigger ()])
               (map (\<lambda>i. Settle i (Resolved (i::nat))) [1, 0, 1])))"
proof -
  let ?k = "ctl_run (ctl_mount True ()) [Trigger ()] :: (nat, unit) controller"
  have h1: "ctl_inv ?k" by (rule ctl_run_inv [OF ctl_mount_inv])
  have h2: "set (map fst (inflight ?k)) \<subseteq> set [1, 0, 1]" by (simp add: ctl_defs)
  show ?thesis using settle_all_clears_loading [OF h1 h2, of "\<lambda>i. Resolved i"] by simp
qed

end
