(* ===== verification/Api.thy ===== *)
theory Api
  imports UseFetch
begin

text \<open>
  The TMDB client of \<^verbatim>\<open>src/services/api.ts\<close>: the configuration \<open>TMDB_CONFIG\<close>, the
  choice of endpoint in \<open>fetchMovies\<close> (search when the query is truthy, the popularity
  listing otherwise), the request it sends, and the handling of the response (a status
  outside 200-299 throws \<open>Error('Failed to fetch movies | Status: ' + status)\<close>, a
  success returns the \<open>results\<close> field). The network is a function from request to
  response or thrown value; \<open>fetchMovies\<close> returns the \<open>outcome\<close> of
  \<^theory_text>\<open>UseFetch\<close>, since it is the producer the search screen hands to \<open>useFetch\<close>.
  Strings are byte strings: a non-ASCII character is its UTF-8 bytes, which is what
  \<open>encodeURIComponent\<close> percent-encodes.
\<close>

section \<open>Percent-encoding\<close>

text \<open>The characters \<open>encodeURIComponent\<close> leaves alone: \<open>A-Z a-z 0-9 - _ . ! ~ * ' ( )\<close>.\<close>

definition uri_unreserved :: "char \<Rightarrow> bool" where
  "uri_unreserved c \<longleftrightarrow>
     (let n = of_char c :: nat in
        (65 \<le> n \<and> n \<le> 90) \<or> (97 \<le> n \<and> n \<le> 122) \<or> (48 \<le> n \<and> n \<le> 57) \<or>
        c \<in> set ''-_.!~*'()'')"

definition hex_alphabet :: string where
  "hex_alphabet = ''0123456789ABCDEF''"

definition hex_digit :: "nat \<Rightarrow> char" where
  "hex_digit n = hex_alphabet ! n"

fun encodeURIComponent :: "string \<Rightarrow> string" where
  "encodeURIComponent [] = []"
| "encodeURIComponent (c # cs) =
     (if uri_unreserved c then [c]
      else [CHR ''%'', hex_digit (of_char c div 16), hex_digit (of_char c mod 16)])
     @ encodeURIComponent cs"

text \<open>The decoder, used to state that the encoding loses nothing.\<close>

definition hex_val :: "char \<Rightarrow> nat option" where
  "hex_val c =
     (let n = of_char c :: nat in
        if 48 \<le> n \<and> n \<le> 57 then Some (n - 48)
        else if 65 \<le> n \<and> n \<le> 70 then Some (n - 55) else None)"

fun decodeURIComponent :: "string \<Rightarrow> string option" where
  "decodeURIComponent [] = Some []"
| "decodeURIComponent (c # cs) =
     (if c = CHR ''%'' then
        (case cs of
           a # b # rest \<Rightarrow>
             (case (hex_val a, hex_val b) of
                (Some x, Some y) \<Rightarrow> map_option (Cons (char_of (16 * x + y))) (decodeURIComponent rest)
              | _ \<Rightarrow> None)
         | _ \<Rightarrow> None)
      else map_option (Cons c) (decodeURIComponent cs))"

section \<open>Configuration, request and response\<close>

text \<open>\<open>TMDB_CONFIG\<close>, given the value of \<open>process.env.EXPO_PUBLIC_MOVIE_API_KEY\<close>
  (\<open>None\<close> when the variable is unset, which reads as \<open>undefined\<close>).\<close>

record tmdb_config =
  BASE_URL :: string
  API_KEY :: "string option"
  headers :: "(string \<times> string) list"

definition TMDB_CONFIG :: "string option \<Rightarrow> tmdb_config" where
  "TMDB_CONFIG key =
     \<lparr>BASE_URL = ''https://api.themoviedb.org/3'', API_KEY = key,
      headers = [(''accept'', ''application/json''), (''Authorization'', ''Bearer '' @ js_template_opt key)]\<rparr>"

record http_request =
  req_url :: string
  req_method :: string
  req_headers :: "(string \<times> string) list"

text \<open>A response: its status and the \<open>results\<close> field of its JSON body.\<close>

record 'a http_response =
  status :: nat
  results :: 'a

text \<open>\<open>Response.ok\<close>: the status is in the range 200-299.\<close>

definition response_ok :: "'a http_response \<Rightarrow> bool" where
  "response_ok r \<longleftrightarrow> 200 \<le> status r \<and> status r \<le> 299"

text \<open>What \<open>fetch\<close> does with a request: a response, or a thrown value (network failure).\<close>

type_synonym 'a network = "http_request \<Rightarrow> thrown + 'a http_response"

section \<open>fetchMovies\<close>

definition fetchMovies_endpoint :: "string option \<Rightarrow> string \<Rightarrow> string" where
  "fetchMovies_endpoint key query =
     (if js_truthy_str query
      then BASE_URL (TMDB_CONFIG key) @ ''/search/movie?query='' @ encodeURIComponent query
      else BASE_URL (TMDB_CONFIG key) @ ''/discover/movie?sort_by=popularity.desc'')"

definition fetchMovies_request :: "string option \<Rightarrow> string \<Rightarrow> http_request" where
  "fetchMovies_request key query =
     \<lparr>req_url = fetchMovies_endpoint key query, req_method = ''GET'',
      req_headers = headers (TMDB_CONFIG key)\<rparr>"

definition fetch_error_msg :: "nat \<Rightarrow> string" where
  "fetch_error_msg st = ''Failed to fetch movies | Status: '' @ string_of_nat st"

definition fetchMovies :: "'a network \<Rightarrow> string option \<Rightarrow> string \<Rightarrow> 'a outcome" where
  "fetchMovies net key query =
     (case net (fetchMovies_request key query) of
        Inl t \<Rightarrow> Rejected t
      | Inr r \<Rightarrow> if \<not> response_ok r then Rejected (ThrownError (fetch_error_msg (status r)))
                else Resolved (results r))"

section \<open>Lemmas\<close>

lemma hex_val_hex_digit_all: "list_all (\<lambda>n. hex_val (hex_digit n) = Some n) [0..<16]"
  by code_simp

lemma hex_val_hex_digit: "n < 16 \<Longrightarrow> hex_val (hex_digit n) = Some n"
  using hex_val_hex_digit_all by (simp add: list_all_iff)

lemma hex_digit_in_alphabet: "n < 16 \<Longrightarrow> hex_digit n \<in> set hex_alphabet"
  by (simp add: hex_digit_def hex_alphabet_def del: set_simps)

lemma uri_unreserved_not_pct: "uri_unreserved c \<Longrightarrow> c \<noteq> CHR ''%''"
  by (auto simp: uri_unreserved_def)

lemma of_char_hex_split:
  "of_char c div 16 < (16::nat)" "of_char c mod 16 < (16::nat)"
proof -
  have "of_char c < (16::nat) * 16" using nat_of_char_less_256 [of c] by simp
  then show "of_char c div 16 < (16::nat)" "of_char c mod 16 < (16::nat)"
    by (simp_all add: less_mult_imp_div_less)
qed

lemma decode_encode: "decodeURIComponent (encodeURIComponent s) = Some s"
proof (induction s)
  case Nil
  then show ?case by simp
next
  case (Cons c cs)
  show ?case
  proof (cases "uri_unreserved c")
    case True
    with Cons show ?thesis by (simp add: uri_unreserved_not_pct)
  next
    case False
    with Cons show ?thesis by (simp add: hex_val_hex_digit of_char_hex_split)
  qed
qed

lemma encode_alphabet:
  "c \<in> set (encodeURIComponent s) \<Longrightarrow>
   uri_unreserved c \<or> c = CHR ''%'' \<or> c \<in> set hex_alphabet"
proof (induction s)
  case Nil
  then show ?case by simp
next
  case (Cons a s)
  have "hex_digit (of_char a div 16) \<in> set hex_alphabet"
       "hex_digit (of_char a mod 16) \<in> set hex_alphabet"
    by (simp_all only: hex_digit_in_alphabet of_char_hex_split)
  with Cons show ?case by (cases "uri_unreserved a") auto
qed

lemma delimiters_not_encoded:
  "\<not> uri_unreserved CHR ''&''" "CHR ''&'' \<notin> set hex_alphabet"
  "\<not> uri_unreserved CHR ''#''" "CHR ''#'' \<notin> set hex_alphabet"
  by (simp_all add: uri_unreserved_def hex_alphabet_def)

lemma encode_no_delimiters:
  "CHR ''&'' \<notin> set (encodeURIComponent s) \<and> CHR ''#'' \<notin> set (encodeURIComponent s)"
  using encode_alphabet [of "CHR ''&''" s] encode_alphabet [of "CHR ''#''" s] delimiters_not_encoded
  by auto

text \<open>C19: for a non-empty query, \<open>fetchMovies\<close> asks the search endpoint with a
  \<open>query\<close> parameter that decodes back to the query and contains no \<open>&\<close> or \<open>#\<close>,
  so the term reaches the API intact and cannot add parameters.\<close>

theorem search_endpoint_roundtrip:
  assumes "js_truthy_str q"
  shows "\<exists>enc. fetchMovies_endpoint key q = ''https://api.themoviedb.org/3/search/movie?query='' @ enc \<and>
              decodeURIComponent enc = Some q \<and> CHR ''&'' \<notin> set enc \<and> CHR ''#'' \<notin> set enc"
  using assms decode_encode [of q] encode_no_delimiters [of q]
  by (simp add: fetchMovies_endpoint_def TMDB_CONFIG_def)

theorem search_endpoint_roundtrip_witness:
  "\<exists>enc. fetchMovies_endpoint (Some ''k'') ''tom & jerry'' =
          ''https://api.themoviedb.org/3/search/movie?query='' @ enc \<and>
        decodeURIComponent enc = Some ''tom & jerry'' \<and> CHR ''&'' \<notin> set enc \<and> CHR ''#'' \<notin> set enc"
  by (rule search_endpoint_roundtrip) (simp add: js_truthy_str_def)

text \<open>C20: a response with a status outside 200-299 becomes a rejection with an \<open>Error\<close>
  whose message is \<open>Failed to fetch movies | Status: \<close> followed by the status, which
  reads back as that status.\<close>

theorem fetchMovies_http_error:
  assumes "net (fetchMovies_request key q) = Inr r" and "\<not> response_ok r"
  shows "\<exists>msg. fetchMovies net key q = Rejected (ThrownError msg) \<and>
              take 33 msg = ''Failed to fetch movies | Status: '' \<and>
              nat_of_digits 0 (drop 33 msg) = status r"
  using assms string_of_nat_roundtrip [of "status r"]
  by (simp add: fetchMovies_def fetch_error_msg_def)

theorem fetchMovies_http_error_witness:
  "\<exists>msg. fetchMovies (\<lambda>_. Inr \<lparr>status = 404, results = ([] :: nat list)\<rparr>) (Some ''k'') ''batman'' =
            Rejected (ThrownError msg) \<and> take 33 msg = ''Failed to fetch movies | Status: '' \<and>
          nat_of_digits 0 (drop 33 msg) = 404"
proof -
  have h1: "(\<lambda>_. Inr \<lparr>status = 404, results = ([] :: nat list)\<rparr>) (fetchMovies_request (Some ''k'') ''batman'') =
            (Inr \<lparr>status = 404, results = ([] :: nat list)\<rparr> :: thrown + nat list http_response)"
    by (rule refl)
  have h2: "\<not> response_ok \<lparr>status = 404, results = ([] :: nat list)\<rparr>"
    by (simp add: response_ok_def)
  show ?thesis
    using fetchMovies_http_error [OF h1 h2] by (simp only: http_response.select_convs)
qed

text \<open>C32: with \<open>EXPO_PUBLIC_MOVIE_API_KEY\<close> unset, nothing stops the request: it
  goes out with the header \<open>Authorization: Bearer undefined\<close>, and the API's refusal
  (status 401) reaches the hook as the error \<open>Failed to fetch movies | Status: 401\<close>.\<close>

theorem unset_api_key_request:
  "API_KEY (TMDB_CONFIG None) = None \<and>
   (''Authorization'', ''Bearer undefined'') \<in> set (req_headers (fetchMovies_request None q)) \<and>
   fetchMovies (\<lambda>_. Inr \<lparr>status = 401, results = rs\<rparr>) None q =
     Rejected (ThrownError ''Failed to fetch movies | Status: 401'')"
proof -
  have msg: "fetch_error_msg 401 = ''Failed to fetch movies | Status: 401''" by code_simp
  show ?thesis
    by (simp add: fetchMovies_request_def TMDB_CONFIG_def fetchMovies_def response_ok_def msg)
qed

end
