(* ===== verification/Appwrite.thy ===== *)
theory Appwrite
  imports Prelude
begin

text \<open>
  The search-analytics recorder of \<^verbatim>\<open>src/services/appwrite.ts\<close>:
  \<open>updateSearchCount(query, movie)\<close> lists the documents whose \<open>searchTerm\<close> equals the
  query, increments the \<open>count\<close> of the first one, or creates a document with
  \<open>count = 1\<close> when there is none; a storage error is logged and rethrown unchanged.
  The Appwrite client is an interface (\<open>store_api\<close>, the three calls the code makes), so
  the recorder's lemmas hold for any store; \<open>mem_api\<close> is a model of the remote
  collection (a list of documents and an identifier counter) on which the functional
  lemmas are stated. The two phases of the recorder (query, then write) are separate
  functions, so that concurrent recorders can be interleaved step by step.
\<close>

section \<open>Data\<close>

text \<open>\<open>type Movie = {id: number; title: string; poster_path?: string}\<close>\<close>

record movie =
  mv_id :: int
  mv_title :: string
  poster_path :: "string option"

text \<open>A document of the collection; \<open>doc_id\<close> is its \<open>$id\<close>.\<close>

record search_doc =
  doc_id :: nat
  searchTerm :: string
  movie_id :: int
  doc_count :: int
  doc_title :: string
  poster_url :: string

datatype store_error = StoreError string

text \<open>The client calls \<open>listDocuments\<close>, \<open>updateDocument\<close> and \<open>createDocument\<close> on a
  store of type \<open>'s\<close>; each may fail. \<open>createDocument\<close> assigns the identifier
  (\<open>ID.unique()\<close>) and takes the remaining fields in the source's order.\<close>

record 's store_api =
  listDocuments :: "string \<Rightarrow> 's \<Rightarrow> store_error + search_doc list"
  updateDocument :: "nat \<Rightarrow> int \<Rightarrow> 's \<Rightarrow> store_error + 's"
  createDocument :: "string \<Rightarrow> int \<Rightarrow> int \<Rightarrow> string \<Rightarrow> string \<Rightarrow> 's \<Rightarrow> store_error + 's"

section \<open>The recorder\<close>

definition poster_prefix :: string where
  "poster_prefix = ''https://image.tmdb.org/t/p/w500''"

definition poster_url_of :: "movie \<Rightarrow> string" where
  "poster_url_of m = poster_prefix @ js_template_opt (poster_path m)"

text \<open>Phase one: \<open>listDocuments(..., [Query.equal('searchTerm', query)])\<close>.\<close>

definition usc_query :: "'s store_api \<Rightarrow> string \<Rightarrow> 's \<Rightarrow> store_error + search_doc list" where
  "usc_query api q s = listDocuments api q s"

text \<open>Phase two, from the listed documents: update the first, or create.\<close>

fun usc_write :: "'s store_api \<Rightarrow> string \<Rightarrow> movie \<Rightarrow> search_doc list \<Rightarrow> 's \<Rightarrow> store_error + 's" where
  "usc_write api q m [] s =
     createDocument api q (mv_id m) 1 (mv_title m) (poster_url_of m) s"
| "usc_write api q m (d # ds) s = updateDocument api (doc_id d) (doc_count d + 1) s"

text \<open>The whole call; the \<open>catch\<close> rethrows the error it logged, so errors pass through.\<close>

definition updateSearchCount :: "'s store_api \<Rightarrow> string \<Rightarrow> movie \<Rightarrow> 's \<Rightarrow> store_error + 's" where
  "updateSearchCount api q m s =
     (case usc_query api q s of
        Inl e \<Rightarrow> Inl e
      | Inr docs \<Rightarrow> usc_write api q m docs s)"

section \<open>A model of the remote collection\<close>

record mem_store =
  docs :: "search_doc list"
  next_uid :: nat

definition mem_list :: "string \<Rightarrow> mem_store \<Rightarrow> store_error + search_doc list" where
  "mem_list q s = Inr (filter (\<lambda>d. searchTerm d = q) (docs s))"

text \<open>\<open>updateDocument(..., id, {count: c})\<close> changes that one field of that document.\<close>

definition set_count :: "nat \<Rightarrow> int \<Rightarrow> search_doc \<Rightarrow> search_doc" where
  "set_count i c d = (if doc_id d = i then d\<lparr>doc_count := c\<rparr> else d)"

definition mem_update :: "nat \<Rightarrow> int \<Rightarrow> mem_store \<Rightarrow> store_error + mem_store" where
  "mem_update i c s =
     (if i \<in> set (map doc_id (docs s))
      then Inr (s\<lparr>docs := map (set_count i c) (docs s)\<rparr>)
      else Inl (StoreError ''document_not_found''))"

definition mem_create ::
  "string \<Rightarrow> int \<Rightarrow> int \<Rightarrow> string \<Rightarrow> string \<Rightarrow> mem_store \<Rightarrow> store_error + mem_store" where
  "mem_create q mid c t u s =
     Inr (s\<lparr>docs := docs s @ [\<lparr>doc_id = next_uid s, searchTerm = q, movie_id = mid,
                                 doc_count = c, doc_title = t, poster_url = u\<rparr>],
           next_uid := Suc (next_uid s)\<rparr>)"

definition mem_api :: "mem_store store_api" where
  "mem_api = \<lparr>listDocuments = mem_list, updateDocument = mem_update, createDocument = mem_create\<rparr>"

text \<open>Sum of the counts recorded for one term.\<close>

definition term_count :: "mem_store \<Rightarrow> string \<Rightarrow> int" where
  "term_count s q = sum_list (map doc_count (filter (\<lambda>d. searchTerm d = q) (docs s)))"

text \<open>The collection's invariant: identifiers distinct and below the counter, every
  count at least 1, and at most one document per search term.\<close>

definition store_inv :: "mem_store \<Rightarrow> bool" where
  "store_inv s \<longleftrightarrow>
     distinct (map doc_id (docs s)) \<and> (\<forall>d\<in>set (docs s). doc_id d < next_uid s \<and> 1 \<le> doc_count d) \<and>
     distinct (map searchTerm (docs s))"

section \<open>Concurrent recorders\<close>

text \<open>
  A recorder in flight: its query and movie, and the documents its \<open>listDocuments\<close>
  returned once that call has completed. A schedule is a list of recorder indices; each
  entry lets that recorder run its next phase. A finished recorder is removed.
\<close>

record recorder =
  r_query :: string
  r_movie :: movie
  r_listed :: "search_doc list option"

fun rec_phase :: "'s store_api \<Rightarrow> recorder \<Rightarrow> 's \<Rightarrow> store_error + ('s \<times> recorder option)" where
  "rec_phase api r s =
     (case r_listed r of
        None \<Rightarrow> (case usc_query api (r_query r) s of
                   Inl e \<Rightarrow> Inl e
                 | Inr ds \<Rightarrow> Inr (s, Some (r\<lparr>r_listed := Some ds\<rparr>)))
      | Some ds \<Rightarrow> (case usc_write api (r_query r) (r_movie r) ds s of
                      Inl e \<Rightarrow> Inl e
                    | Inr s' \<Rightarrow> Inr (s', None)))"

fun run_schedule ::
  "'s store_api \<Rightarrow> nat list \<Rightarrow> 's \<Rightarrow> recorder list \<Rightarrow> store_error + ('s \<times> recorder list)" where
  "run_schedule api [] s rs = Inr (s, rs)"
| "run_schedule api (i # is) s rs =
     (if i < length rs then
        (case rec_phase api (rs ! i) s of
           Inl e \<Rightarrow> Inl e
         | Inr (s', None) \<Rightarrow> run_schedule api is s' (take i rs @ drop (Suc i) rs)
         | Inr (s', Some r') \<Rightarrow> run_schedule api is s' (rs[i := r']))
      else run_schedule api is s rs)"

definition new_recorder :: "string \<Rightarrow> movie \<Rightarrow> recorder" where
  "new_recorder q m = \<lparr>r_query = q, r_movie = m, r_listed = None\<rparr>"

text \<open>Invariant of a set of concurrent recorders for one term \<open>q\<close>, started as
  \<open>n\<close> calls: the documents each listed are still documents of \<open>q\<close>, and every
  finished call has left at most one new document and at least one document of \<open>q\<close>.\<close>

definition q_docs :: "string \<Rightarrow> mem_store \<Rightarrow> search_doc list" where
  "q_docs q s = filter (\<lambda>d. searchTerm d = q) (docs s)"

definition snapshot_ok :: "string \<Rightarrow> mem_store \<Rightarrow> recorder \<Rightarrow> bool" where
  "snapshot_ok q s r \<longleftrightarrow>
     r_query r = q \<and>
     (case r_listed r of
        None \<Rightarrow> True
      | Some ds \<Rightarrow> list_all (\<lambda>d. searchTerm d = q \<and> 1 \<le> doc_count d \<and>
                                  doc_id d \<in> set (map doc_id (q_docs q s))) ds)"

definition race_inv :: "string \<Rightarrow> nat \<Rightarrow> mem_store \<Rightarrow> recorder list \<Rightarrow> bool" where
  "race_inv q n s rs \<longleftrightarrow>
     list_all (\<lambda>d. 1 \<le> doc_count d) (docs s) \<and> list_all (snapshot_ok q s) rs \<and>
     length (q_docs q s) + length rs \<le> n \<and> (length rs < n \<longrightarrow> q_docs q s \<noteq> [])"

text \<open>Ghost accounting for the count: \<open>w i\<close> is the number of completed writes to
  document \<open>i\<close>. Identifiers stay distinct and below the counter, every count of the term
  and every listed snapshot count is at most the writes to its document, and the writes
  plus the calls still running are at most the number of calls.\<close>

definition count_inv :: "string \<Rightarrow> nat \<Rightarrow> mem_store \<Rightarrow> recorder list \<Rightarrow> (nat \<Rightarrow> nat) \<Rightarrow> bool" where
  "count_inv q n s rs w \<longleftrightarrow>
     distinct (map doc_id (docs s)) \<and> list_all (\<lambda>d. doc_id d < next_uid s) (docs s) \<and>
     list_all (\<lambda>d. doc_count d \<le> int (w (doc_id d))) (q_docs q s) \<and>
     list_all (\<lambda>r. case r_listed r of None \<Rightarrow> True
                   | Some ds \<Rightarrow> list_all (\<lambda>d. doc_count d \<le> int (w (doc_id d))) ds) rs \<and>
     sum_list (map (w \<circ> doc_id) (q_docs q s)) + length rs \<le> n"

lemmas mem_defs = mem_list_def mem_update_def mem_create_def

section \<open>Lemmas on the recorder\<close>

lemma mem_api_calls [simp]:
  "listDocuments mem_api = mem_list" "updateDocument mem_api = mem_update"
  "createDocument mem_api = mem_create"
  by (simp_all add: mem_api_def)

lemma usc_query_mem [simp]:
  "usc_query mem_api q s = Inr (filter (\<lambda>d. searchTerm d = q) (docs s))"
  by (simp add: usc_query_def mem_list_def)

lemma filter_unique_key:
  assumes "distinct (map k xs)" "x \<in> set xs" "k x = v"
  shows "filter (\<lambda>y. k y = v) xs = [x]"
  using assms
proof (induction xs)
  case Nil
  then show ?case by simp
next
  case (Cons y ys)
  show ?case
  proof (cases "y = x")
    case True
    with Cons.prems have "\<forall>z\<in>set ys. k z \<noteq> v" by (auto simp: image_iff)
    with True Cons.prems show ?thesis by (simp add: filter_empty_conv)
  next
    case False
    with Cons.prems have "x \<in> set ys" by simp
    moreover from Cons.prems \<open>x \<in> set ys\<close> have "k y \<noteq> v" by force
    ultimately show ?thesis using Cons by simp
  qed
qed

lemma filter_Cons_in_set:
  assumes "filter P xs = d # ds"
  shows "d \<in> set xs \<and> P d"
proof -
  have "d \<in> set (filter P xs)" using assms by simp
  then show ?thesis by simp
qed

lemma set_count_keeps [simp]:
  "doc_id (set_count i c d) = doc_id d" "searchTerm (set_count i c d) = searchTerm d"
  by (simp_all add: set_count_def)

lemma set_count_self [simp]: "set_count (doc_id d) c d = d\<lparr>doc_count := c\<rparr>"
  by (simp add: set_count_def)

lemma set_count_twice [simp]: "set_count i c \<circ> set_count i c' = set_count i c"
  by (simp add: fun_eq_iff set_count_def)

lemma comp_set_count_keeps [simp]:
  "doc_id \<circ> set_count i c = doc_id" "searchTerm \<circ> set_count i c = searchTerm"
  by (simp_all add: fun_eq_iff)

lemma map_set_count_keeps [simp]:
  "map doc_id (map (set_count i c) xs) = map doc_id xs"
  "map searchTerm (map (set_count i c) xs) = map searchTerm xs"
  by (induction xs) auto

lemma filter_map_set_count:
  "filter (\<lambda>x. searchTerm x = q) (map (set_count i c) xs) =
   map (set_count i c) (filter (\<lambda>x. searchTerm x = q) xs)"
  by (induction xs) auto

lemma map_set_count_other:
  "\<forall>y\<in>set ys. doc_id y \<noteq> i \<Longrightarrow> map (set_count i c) ys = ys"
  by (induction ys) (auto simp: set_count_def)

text \<open>The recorder on the collection model, term already recorded.\<close>

lemma usc_mem_existing:
  assumes "filter (\<lambda>d. searchTerm d = q) (docs s) = d # ds"
  shows "updateSearchCount mem_api q m s =
           Inr (s\<lparr>docs := map (set_count (doc_id d) (doc_count d + 1)) (docs s)\<rparr>)"
proof -
  from filter_Cons_in_set [OF assms] have "doc_id d \<in> set (map doc_id (docs s))" by simp
  with assms show ?thesis by (simp add: updateSearchCount_def mem_defs)
qed

text \<open>The recorder on the collection model, new term.\<close>

lemma usc_mem_new:
  assumes "\<forall>d\<in>set (docs s). searchTerm d \<noteq> q"
  shows "updateSearchCount mem_api q m s =
           Inr (s\<lparr>docs := docs s @ [\<lparr>doc_id = next_uid s, searchTerm = q, movie_id = mv_id m,
                                       doc_count = 1, doc_title = mv_title m,
                                       poster_url = poster_url_of m\<rparr>],
                  next_uid := Suc (next_uid s)\<rparr>)"
proof -
  from assms have "filter (\<lambda>d. searchTerm d = q) (docs s) = []"
    by (simp add: filter_empty_conv)
  then show ?thesis by (simp add: updateSearchCount_def mem_defs)
qed

lemma same_id_same_doc:
  "distinct (map doc_id xs) \<Longrightarrow> x \<in> set xs \<Longrightarrow> y \<in> set xs \<Longrightarrow> doc_id x = doc_id y \<Longrightarrow> x = y"
  by (metis distinct_map inj_on_def)

lemma usc_mem_existing_inv:
  assumes inv: "store_inv s" and d: "d \<in> set (docs s)" "searchTerm d = q"
  shows "\<exists>s'. updateSearchCount mem_api q m s = Inr s' \<and> store_inv s' \<and>
            term_count s' q = term_count s q + 1 \<and>
            (\<forall>q'. q' \<noteq> q \<longrightarrow> term_count s' q' = term_count s q')"
proof -
  let ?f = "set_count (doc_id d) (doc_count d + 1)"
  let ?s' = "s\<lparr>docs := map ?f (docs s)\<rparr>"
  have one: "filter (\<lambda>x. searchTerm x = q) (docs s) = [d]"
    using inv d by (intro filter_unique_key) (auto simp: store_inv_def)
  then have run: "updateSearchCount mem_api q m s = Inr ?s'"
    by (rule usc_mem_existing)
  have "1 \<le> doc_count (?f x)" if "x \<in> set (docs s)" for x
    using inv d that same_id_same_doc [of "docs s" x d]
    by (auto simp: store_inv_def set_count_def)
  then have "store_inv ?s'"
    using inv by (auto simp: store_inv_def)
  moreover have "term_count ?s' q = term_count s q + 1"
    using one by (simp add: term_count_def filter_map_set_count set_count_def)
  moreover have "term_count ?s' q' = term_count s q'" if "q' \<noteq> q" for q'
  proof -
    have "\<forall>y\<in>set (filter (\<lambda>x. searchTerm x = q') (docs s)). doc_id y \<noteq> doc_id d"
      using inv d that same_id_same_doc [of "docs s" _ d] by (auto simp: store_inv_def)
    then show ?thesis
      by (simp add: term_count_def filter_map_set_count map_set_count_other)
  qed
  ultimately show ?thesis using run by blast
qed

lemma usc_mem_new_inv:
  assumes inv: "store_inv s" and none: "\<forall>d\<in>set (docs s). searchTerm d \<noteq> q"
  shows "\<exists>s'. updateSearchCount mem_api q m s = Inr s' \<and> store_inv s' \<and>
            term_count s' q = term_count s q + 1 \<and>
            (\<forall>q'. q' \<noteq> q \<longrightarrow> term_count s' q' = term_count s q')"
proof -
  have "next_uid s \<notin> set (map doc_id (docs s))"
    using inv by (auto simp: store_inv_def)
  moreover have "q \<notin> set (map searchTerm (docs s))"
    using none by auto
  moreover have "filter (\<lambda>x. searchTerm x = q) (docs s) = []"
    using none by (simp add: filter_empty_conv)
  ultimately show ?thesis
    using inv by (auto simp: usc_mem_new [OF none] store_inv_def term_count_def less_Suc_eq)
qed

lemma no_doc_filter_Nil:
  "\<forall>d\<in>set (docs s). searchTerm d \<noteq> q \<Longrightarrow> filter (\<lambda>d. searchTerm d = q) (docs s) = []"
  by (simp add: filter_empty_conv)

text \<open>C11: on a consistent collection, one call of \<open>updateSearchCount\<close> succeeds, keeps
  the collection consistent (unique identifiers and terms, counts at least 1), adds
  exactly 1 to the count recorded for its term and changes no other term's count.\<close>

theorem updateSearchCount_inv:
  assumes "store_inv s"
  shows "\<exists>s'. updateSearchCount mem_api q m s = Inr s' \<and> store_inv s' \<and>
            term_count s' q = term_count s q + 1 \<and>
            (\<forall>q'. q' \<noteq> q \<longrightarrow> term_count s' q' = term_count s q')"
proof (cases "\<exists>d\<in>set (docs s). searchTerm d = q")
  case True
  then obtain d where "d \<in> set (docs s)" "searchTerm d = q" by blast
  with assms show ?thesis by (rule usc_mem_existing_inv)
next
  case False
  with assms show ?thesis by (intro usc_mem_new_inv) auto
qed

theorem updateSearchCount_inv_witness:
  "\<exists>s'. updateSearchCount mem_api ''batman'' \<lparr>mv_id = 155, mv_title = ''The Batman'', poster_path = None\<rparr>
          \<lparr>docs = [\<lparr>doc_id = 0, searchTerm = ''batman'', movie_id = 155, doc_count = 1,
                    doc_title = ''The Batman'', poster_url = ''u''\<rparr>], next_uid = 1\<rparr> = Inr s' \<and>
        term_count s' ''batman'' = 2"
proof -
  let ?s = "\<lparr>docs = [\<lparr>doc_id = 0, searchTerm = ''batman'', movie_id = 155, doc_count = 1,
                     doc_title = ''The Batman'', poster_url = ''u''\<rparr>], next_uid = 1\<rparr>"
  have h: "store_inv ?s" by (simp add: store_inv_def)
  have "term_count ?s ''batman'' = 1" by (simp add: term_count_def)
  then show ?thesis
    using updateSearchCount_inv [OF h, of "''batman''" "\<lparr>mv_id = 155, mv_title = ''The Batman'', poster_path = None\<rparr>"]
    by auto
qed

text \<open>C22: storage errors pass through unchanged: \<open>updateSearchCount\<close> fails with
  exactly the error of its \<open>listDocuments\<close> call, or of the write that follows it.\<close>

theorem updateSearchCount_error_passthrough:
  "updateSearchCount api q m s = Inl e \<longleftrightarrow>
     listDocuments api q s = Inl e \<or>
     (\<exists>ds. listDocuments api q s = Inr ds \<and> usc_write api q m ds s = Inl e)"
  by (cases "listDocuments api q s") (auto simp: updateSearchCount_def usc_query_def)

text \<open>C31: a movie without \<open>poster_path\<close> is recorded with the poster URL
  \<open>https://image.tmdb.org/t/p/w500undefined\<close>.\<close>

theorem updateSearchCount_poster_undefined:
  assumes "\<forall>d\<in>set (docs s). searchTerm d \<noteq> q" and "poster_path m = None"
  shows "\<exists>s'. updateSearchCount mem_api q m s = Inr s' \<and>
            poster_url (last (docs s')) = ''https://image.tmdb.org/t/p/w500undefined''"
  using assms by (simp add: updateSearchCount_def no_doc_filter_Nil mem_defs poster_url_of_def poster_prefix_def)

theorem updateSearchCount_poster_undefined_witness:
  "\<exists>s'. updateSearchCount mem_api ''x'' \<lparr>mv_id = 1, mv_title = ''t'', poster_path = None\<rparr>
          \<lparr>docs = [], next_uid = 0\<rparr> = Inr s' \<and>
        poster_url (last (docs s')) = ''https://image.tmdb.org/t/p/w500undefined''"
  by (rule updateSearchCount_poster_undefined) simp_all

text \<open>C13: the query-then-write sequence is not atomic: two recorders for a term the
  collection does not hold, both querying before either writes, create two documents
  for that term, which breaks the one-document-per-term invariant; run one after the
  other they leave one document with count 2.\<close>

theorem concurrent_new_term_duplicates:
  assumes "store_inv s" and "\<forall>d\<in>set (docs s). searchTerm d \<noteq> q"
  shows "(\<exists>s'. run_schedule mem_api [0, 1, 0, 0] s [new_recorder q m1, new_recorder q m2] = Inr (s', []) \<and>
            length (filter (\<lambda>d. searchTerm d = q) (docs s')) = 2 \<and> \<not> store_inv s') \<and>
         (\<exists>s'. run_schedule mem_api [0, 0, 0, 0] s [new_recorder q m1, new_recorder q m2] = Inr (s', []) \<and>
            map doc_count (filter (\<lambda>d. searchTerm d = q) (docs s')) = [2] \<and> store_inv s')"
proof -
  have none: "filter (\<lambda>d. searchTerm d = q) (docs s) = []"
    using assms(2) by (rule no_doc_filter_Nil)
  have fresh: "next_uid s \<notin> set (map doc_id (docs s))" "q \<notin> set (map searchTerm (docs s))"
    using assms by (auto simp: store_inv_def)
  show ?thesis
    using assms(1) none fresh
    by (auto simp: new_recorder_def mem_defs store_inv_def set_count_def less_Suc_eq
        filter_map_set_count)
qed

theorem concurrent_new_term_duplicates_witness:
  "\<exists>s'. run_schedule mem_api [0, 1, 0, 0] \<lparr>docs = [], next_uid = 0\<rparr>
          [new_recorder ''batman'' \<lparr>mv_id = 155, mv_title = ''The Batman'', poster_path = None\<rparr>,
           new_recorder ''batman'' \<lparr>mv_id = 155, mv_title = ''The Batman'', poster_path = None\<rparr>] = Inr (s', []) \<and>
        length (filter (\<lambda>d. searchTerm d = ''batman'') (docs s')) = 2"
proof -
  have h: "store_inv \<lparr>docs = [], next_uid = 0\<rparr>" by (simp add: store_inv_def)
  show ?thesis
    using concurrent_new_term_duplicates [OF h, of "''batman''"
            "\<lparr>mv_id = 155, mv_title = ''The Batman'', poster_path = None\<rparr>"
            "\<lparr>mv_id = 155, mv_title = ''The Batman'', poster_path = None\<rparr>"] by auto
qed

text \<open>C14: the increment is computed from the listed snapshot
  (\<open>existingMovie.count + 1\<close>), so two recorders for a recorded term that both query
  before either writes add 1 to its count instead of 2; run one after the other they
  add 2.\<close>

theorem concurrent_increment_lost:
  assumes inv: "store_inv s" and d: "d \<in> set (docs s)" "searchTerm d = q"
  shows "(\<exists>s'. run_schedule mem_api [0, 1, 0, 0] s [new_recorder q m1, new_recorder q m2] = Inr (s', []) \<and>
            term_count s' q = term_count s q + 1) \<and>
         (\<exists>s'. run_schedule mem_api [0, 0, 0, 0] s [new_recorder q m1, new_recorder q m2] = Inr (s', []) \<and>
            term_count s' q = term_count s q + 2)"
proof -
  have one: "filter (\<lambda>x. searchTerm x = q) (docs s) = [d]"
    using inv d by (intro filter_unique_key) (auto simp: store_inv_def)
  have id: "doc_id d \<in> set (map doc_id (docs s))" using d by simp
  show ?thesis
    using one id
    by (simp add: new_recorder_def mem_defs term_count_def filter_map_set_count image_image)
qed

theorem concurrent_increment_lost_witness:
  "(\<exists>s'. run_schedule mem_api [0, 1, 0, 0]
           \<lparr>docs = [\<lparr>doc_id = 0, searchTerm = ''batman'', movie_id = 155, doc_count = 4,
                     doc_title = ''The Batman'', poster_url = ''u''\<rparr>], next_uid = 1\<rparr>
           [new_recorder ''batman'' \<lparr>mv_id = 155, mv_title = ''The Batman'', poster_path = None\<rparr>,
            new_recorder ''batman'' \<lparr>mv_id = 155, mv_title = ''The Batman'', poster_path = None\<rparr>] = Inr (s', []) \<and>
         term_count s' ''batman'' = 5)"
proof -
  let ?d = "\<lparr>doc_id = 0, searchTerm = ''batman'', movie_id = 155, doc_count = 4,
             doc_title = ''The Batman'', poster_url = ''u''\<rparr>"
  let ?m = "\<lparr>mv_id = 155, mv_title = ''The Batman'', poster_path = None\<rparr>"
  have h: "store_inv \<lparr>docs = [?d], next_uid = 1\<rparr>" by (simp add: store_inv_def)
  have "term_count \<lparr>docs = [?d], next_uid = 1\<rparr> ''batman'' = 4" by (simp add: term_count_def)
  then show ?thesis
    using concurrent_increment_lost [OF h, of ?d "''batman''" ?m ?m] by auto
qed

lemma q_docs_update [simp]: "q_docs q (s\<lparr>docs := map (set_count i c) (docs s)\<rparr>) = map (set_count i c) (q_docs q s)"
  by (simp add: q_docs_def filter_map_set_count)

lemma snapshot_ok_update:
  "snapshot_ok q s r \<Longrightarrow> snapshot_ok q (s\<lparr>docs := map (set_count i c) (docs s)\<rparr>) r"
  by (simp add: snapshot_ok_def split: option.splits)

lemma snapshot_ok_create:
  "snapshot_ok q s r \<Longrightarrow> searchTerm x = q \<Longrightarrow> snapshot_ok q (s\<lparr>docs := docs s @ [x], next_uid := u\<rparr>) r"
  by (auto simp: snapshot_ok_def q_docs_def list_all_iff split: option.splits)

lemma set_remove_nth: "set (take i rs @ drop (Suc i) rs) \<subseteq> set rs"
  by (metis Un_subset_iff set_append set_drop_subset set_take_subset subset_trans)

lemma length_remove_nth: "i < length rs \<Longrightarrow> length (take i rs @ drop (Suc i) rs) = length rs - 1"
  by simp

lemma rec_phase_inv:
  assumes inv: "race_inv q n s rs" and i: "i < length rs"
  shows "(\<exists>s'. rec_phase mem_api (rs ! i) s = Inr (s', None) \<and> race_inv q n s' (take i rs @ drop (Suc i) rs)) \<or>
         (\<exists>r'. rec_phase mem_api (rs ! i) s = Inr (s, Some r') \<and> race_inv q n s (rs[i := r']))"
proof -
  let ?r = "rs ! i"
  have r: "snapshot_ok q s ?r" using inv i by (simp add: race_inv_def list_all_length)
  show ?thesis
  proof (cases "r_listed ?r")
    case None
    let ?r' = "?r\<lparr>r_listed := Some (q_docs q s)\<rparr>"
    have "snapshot_ok q s ?r'"
      using r inv by (auto simp: snapshot_ok_def race_inv_def q_docs_def list_all_iff)
    then have "race_inv q n s (rs[i := ?r'])"
      using inv i by (auto simp: race_inv_def list_all_iff dest!: set_update_subset_insert [THEN subsetD])
    moreover have "rec_phase mem_api ?r s = Inr (s, Some ?r')"
      using None r by (simp add: snapshot_ok_def q_docs_def)
    ultimately show ?thesis by blast
  next
    case (Some ds)
    show ?thesis
    proof (cases ds)
      case Nil
      let ?x = "\<lparr>doc_id = next_uid s, searchTerm = q, movie_id = mv_id (r_movie ?r), doc_count = 1,
                 doc_title = mv_title (r_movie ?r), poster_url = poster_url_of (r_movie ?r)\<rparr>"
      let ?s' = "s\<lparr>docs := docs s @ [?x], next_uid := Suc (next_uid s)\<rparr>"
      have run: "rec_phase mem_api ?r s = Inr (?s', None)"
        using Some Nil r by (simp add: snapshot_ok_def mem_defs)
      have keep: "\<forall>x\<in>set (take i rs @ drop (Suc i) rs). snapshot_ok q ?s' x"
        using inv set_remove_nth [of i rs] snapshot_ok_create [of q s _ ?x "Suc (next_uid s)"]
        by (auto simp: race_inv_def list_all_iff)
      have len: "q_docs q ?s' = q_docs q s @ [?x]" by (simp add: q_docs_def)
      have "race_inv q n ?s' (take i rs @ drop (Suc i) rs)"
        using inv i keep len by (auto simp: race_inv_def list_all_iff)
      with run show ?thesis by blast
    next
      case (Cons d ds')
      have d: "doc_id d \<in> set (map doc_id (q_docs q s))" "1 \<le> doc_count d"
        using r Some Cons by (simp_all add: snapshot_ok_def)
      then have ne: "q_docs q s \<noteq> []" by auto
      have "doc_id d \<in> set (map doc_id (docs s))"
        using d(1) by (auto simp: q_docs_def)
      then have run: "rec_phase mem_api ?r s =
                 Inr (s\<lparr>docs := map (set_count (doc_id d) (doc_count d + 1)) (docs s)\<rparr>, None)"
        using Some Cons by (simp add: mem_defs)
      have cnt: "list_all (\<lambda>x. 1 \<le> doc_count x) (map (set_count (doc_id d) (doc_count d + 1)) (docs s))"
        using inv d(2) by (auto simp: race_inv_def list_all_iff set_count_def)
      have "race_inv q n (s\<lparr>docs := map (set_count (doc_id d) (doc_count d + 1)) (docs s)\<rparr>)
              (take i rs @ drop (Suc i) rs)"
        using inv i ne cnt set_remove_nth [of i rs]
        by (auto simp: race_inv_def list_all_iff intro: snapshot_ok_update)
      with run show ?thesis by blast
    qed
  qed
qed

lemma run_schedule_race:
  "race_inv q n s rs \<Longrightarrow> \<exists>s' rs'. run_schedule mem_api sched s rs = Inr (s', rs') \<and> race_inv q n s' rs'"
proof (induction sched arbitrary: s rs)
  case Nil
  then show ?case by simp
next
  case (Cons i sched)
  show ?case
  proof (cases "i < length rs")
    case True
    from rec_phase_inv [OF Cons.prems True] show ?thesis
    proof
      assume "\<exists>s'. rec_phase mem_api (rs ! i) s = Inr (s', None) \<and> race_inv q n s' (take i rs @ drop (Suc i) rs)"
      then obtain s' where "rec_phase mem_api (rs ! i) s = Inr (s', None)"
        and "race_inv q n s' (take i rs @ drop (Suc i) rs)" by blast
      with True Cons.IH show ?thesis by simp
    next
      assume "\<exists>r'. rec_phase mem_api (rs ! i) s = Inr (s, Some r') \<and> race_inv q n s (rs[i := r'])"
      then obtain r' where "rec_phase mem_api (rs ! i) s = Inr (s, Some r')"
        and "race_inv q n s (rs[i := r'])" by blast
      with True Cons.IH show ?thesis by simp
    qed
  next
    case False
    with Cons show ?thesis by simp
  qed
qed

lemma sum_list_ge_one:
  "xs \<noteq> [] \<Longrightarrow> \<forall>x\<in>set xs. (1::int) \<le> f x \<Longrightarrow> 1 \<le> sum_list (map f xs)"
proof (induction xs)
  case Nil
  then show ?case by simp
next
  case (Cons x xs)
  have "0 \<le> sum_list (map f xs)"
    using Cons.prems by (intro sum_list_nonneg) auto
  with Cons.prems show ?case by simp
qed

lemma race_inv_init:
  "store_inv s \<Longrightarrow> \<forall>d\<in>set (docs s). searchTerm d \<noteq> q \<Longrightarrow>
   race_inv q (length ms) s (map (new_recorder q) ms)"
  by (auto simp: race_inv_def store_inv_def list_all_iff snapshot_ok_def new_recorder_def q_docs_def
           filter_empty_conv)

lemma race_inv_term_count:
  "race_inv q n s rs \<Longrightarrow> length rs < n \<Longrightarrow> 1 \<le> term_count s q"
  using sum_list_ge_one [of "q_docs q s" doc_count]
  by (auto simp: race_inv_def list_all_iff term_count_def q_docs_def)

lemma rec_phase_advances:
  "rec_phase api r s = Inr (s', Some r') \<Longrightarrow> r_listed r = None \<and> r_listed r' \<noteq> None"
  "rec_phase api r s = Inr (s', None) \<Longrightarrow> r_listed r \<noteq> None"
  by (auto split: option.splits sum.splits)

lemma sum_bump:
  "distinct (map doc_id ds) \<Longrightarrow> i \<in> set (map doc_id ds) \<Longrightarrow>
   sum_list (map (w(i := Suc (w i)) \<circ> doc_id) ds) = Suc (sum_list (map (w \<circ> doc_id) ds))"
proof (induction ds)
  case Nil
  then show ?case by simp
next
  case (Cons d ds)
  show ?case
  proof (cases "doc_id d = i")
    case True
    with Cons.prems have "i \<notin> set (map doc_id ds)" by auto
    then have eq: "map (w(i := Suc (w i)) \<circ> doc_id) ds = map (w \<circ> doc_id) ds"
      by (intro map_cong) auto
    have "sum_list (map (w(i := Suc (w i)) \<circ> doc_id) (d # ds)) =
          (w(i := Suc (w i)) \<circ> doc_id) d + sum_list (map (w(i := Suc (w i)) \<circ> doc_id) ds)"
      by (simp only: list.map sum_list_simps)
    also have "\<dots> = Suc (w i) + sum_list (map (w \<circ> doc_id) ds)"
      by (simp only: comp_apply True fun_upd_same eq)
    also have "\<dots> = Suc (sum_list (map (w \<circ> doc_id) (d # ds)))" using True by simp
    finally show ?thesis .
  next
    case False
    with Cons show ?thesis by simp
  qed
qed

lemma sum_fresh:
  "i \<notin> set (map doc_id ds) \<Longrightarrow> sum_list (map (w(i := k) \<circ> doc_id) ds) = sum_list (map (w \<circ> doc_id) ds)"
proof -
  assume "i \<notin> set (map doc_id ds)"
  then have "map (w(i := k) \<circ> doc_id) ds = map (w \<circ> doc_id) ds" by (intro map_cong) auto
  then show ?thesis by (rule arg_cong)
qed

lemma q_docs_distinct: "distinct (map doc_id (docs s)) \<Longrightarrow> distinct (map doc_id (q_docs q s))"
  by (simp add: q_docs_def distinct_map_filter)

lemma map_comp_doc_id_set_count [simp]:
  "map (f \<circ> doc_id) (map (set_count i c) xs) = map (f \<circ> doc_id) xs"
  by (induction xs) simp_all

lemma count_inv_listed:
  assumes inv: "race_inv q n s rs" and c: "count_inv q n s rs w" and i: "i < length rs"
    and run: "rec_phase mem_api (rs ! i) s = Inr (s', Some r')"
  shows "s' = s \<and> count_inv q n s (rs[i := r']) w"
proof -
  have r: "snapshot_ok q s (rs ! i)" using inv i by (simp add: race_inv_def list_all_length)
  have "r_listed (rs ! i) = None" using rec_phase_advances(1) [OF run] by simp
  with run r have eq: "s' = s" "r' = (rs ! i)\<lparr>r_listed := Some (q_docs q s)\<rparr>"
    by (auto simp: snapshot_ok_def q_docs_def split: sum.splits)
  have "list_all (\<lambda>d. doc_count d \<le> int (w (doc_id d))) (q_docs q s)"
    using c by (simp add: count_inv_def)
  with c i eq show ?thesis
    by (auto simp: count_inv_def list_all_iff dest!: set_update_subset_insert [THEN subsetD])
qed

lemma bounded_by_mono:
  "list_all (\<lambda>d. doc_count d \<le> int (w (doc_id d))) ds \<Longrightarrow> (\<And>j. w j \<le> w' j) \<Longrightarrow>
   list_all (\<lambda>d. doc_count d \<le> int (w' (doc_id d))) ds"
  by (auto simp: list_all_iff intro: order_trans [OF _ of_nat_mono])

lemma snapshots_bounded_mono:
  "list_all (\<lambda>r. case r_listed r of None \<Rightarrow> True
               | Some ds \<Rightarrow> list_all (\<lambda>d. doc_count d \<le> int (w (doc_id d))) ds) rs \<Longrightarrow>
   (\<And>j. w j \<le> w' j) \<Longrightarrow> set rs' \<subseteq> set rs \<Longrightarrow>
   list_all (\<lambda>r. case r_listed r of None \<Rightarrow> True
               | Some ds \<Rightarrow> list_all (\<lambda>d. doc_count d \<le> int (w' (doc_id d))) ds) rs'"
proof -
  assume all: "list_all (\<lambda>r. case r_listed r of None \<Rightarrow> True
               | Some ds \<Rightarrow> list_all (\<lambda>d. doc_count d \<le> int (w (doc_id d))) ds) rs"
    and le: "\<And>j. w j \<le> w' j" and sub: "set rs' \<subseteq> set rs"
  have "case r_listed r of None \<Rightarrow> True
          | Some ds \<Rightarrow> list_all (\<lambda>d. doc_count d \<le> int (w' (doc_id d))) ds" if "r \<in> set rs'" for r
  proof (cases "r_listed r")
    case (Some ds)
    with all sub that have "list_all (\<lambda>d. doc_count d \<le> int (w (doc_id d))) ds"
      by (fastforce simp: list_all_iff)
    with Some le show ?thesis by (simp add: bounded_by_mono)
  qed simp
  then show ?thesis by (simp add: list_all_iff)
qed

lemma count_inv_done:
  assumes inv: "race_inv q n s rs" and c: "count_inv q n s rs w" and i: "i < length rs"
    and run: "rec_phase mem_api (rs ! i) s = Inr (s', None)"
  shows "\<exists>w'. count_inv q n s' (take i rs @ drop (Suc i) rs) w'"
proof -
  let ?r = "rs ! i" and ?rs' = "take i rs @ drop (Suc i) rs"
  have r: "snapshot_ok q s ?r" using inv i by (simp add: race_inv_def list_all_length)
  obtain ds where ds: "r_listed ?r = Some ds" using rec_phase_advances(2) [OF run] by blast
  have len: "length ?rs' + 1 = length rs" using i by simp
  have sub: "set ?rs' \<subseteq> set rs" by (rule set_remove_nth)
  have c1: "distinct (map doc_id (docs s))"
    and c2: "list_all (\<lambda>d. doc_id d < next_uid s) (docs s)"
    and c3: "list_all (\<lambda>d. doc_count d \<le> int (w (doc_id d))) (q_docs q s)"
    and c4: "list_all (\<lambda>r. case r_listed r of None \<Rightarrow> True
                | Some ds \<Rightarrow> list_all (\<lambda>d. doc_count d \<le> int (w (doc_id d))) ds) rs"
    and c5: "sum_list (map (w \<circ> doc_id) (q_docs q s)) + length rs \<le> n"
    using c unfolding count_inv_def by blast+
  have snap_r: "list_all (\<lambda>d. doc_count d \<le> int (w (doc_id d))) ds"
    using c i ds by (auto simp: count_inv_def list_all_length)
  have qd: "distinct (map doc_id (q_docs q s))" using c by (simp add: count_inv_def q_docs_distinct)
  show ?thesis
  proof (cases ds)
    case Nil
    let ?x = "\<lparr>doc_id = next_uid s, searchTerm = q, movie_id = mv_id (r_movie ?r), doc_count = 1,
               doc_title = mv_title (r_movie ?r), poster_url = poster_url_of (r_movie ?r)\<rparr>"
    let ?w' = "w(next_uid s := 1)"
    have s': "s' = s\<lparr>docs := docs s @ [?x], next_uid := Suc (next_uid s)\<rparr>"
      using run ds Nil r by (simp add: snapshot_ok_def mem_defs)
    have fresh: "next_uid s \<notin> set (map doc_id (docs s))"
      using c by (auto simp: count_inv_def list_all_iff)
    then have freshq: "next_uid s \<notin> set (map doc_id (q_docs q s))" by (auto simp: q_docs_def)
    have mono: "w j \<le> ?w' j" if "j \<noteq> next_uid s" for j using that by simp
    have ne: "\<forall>d\<in>set (q_docs q s). doc_id d \<noteq> next_uid s" using freshq by (force simp: image_iff)
    have old: "list_all (\<lambda>d. doc_count d \<le> int (?w' (doc_id d))) (q_docs q s)"
      using c ne by (auto simp: count_inv_def list_all_iff)
    have "\<forall>r\<in>set ?rs'. case r_listed r of None \<Rightarrow> True
                   | Some ds \<Rightarrow> list_all (\<lambda>d. doc_count d \<le> int (?w' (doc_id d))) ds"
    proof
      fix r assume rr: "r \<in> set ?rs'"
      then have "r \<in> set rs" using sub by blast
      then have ok: "snapshot_ok q s r" and bd: "case r_listed r of None \<Rightarrow> True
                   | Some ds \<Rightarrow> list_all (\<lambda>d. doc_count d \<le> int (w (doc_id d))) ds"
        using inv c by (auto simp: race_inv_def count_inv_def list_all_iff)
      show "case r_listed r of None \<Rightarrow> True
              | Some ds \<Rightarrow> list_all (\<lambda>d. doc_count d \<le> int (?w' (doc_id d))) ds"
      proof (cases "r_listed r")
        case (Some ds0)
        have "\<forall>d\<in>set ds0. doc_id d \<in> set (map doc_id (q_docs q s))"
          using ok Some by (simp add: snapshot_ok_def list_all_iff)
        then have "\<forall>d\<in>set ds0. doc_id d \<noteq> next_uid s" using freshq by metis
        with bd Some show ?thesis by (auto simp: list_all_iff)
      qed simp
    qed
    then have snaps: "list_all (\<lambda>r. case r_listed r of None \<Rightarrow> True
                   | Some ds \<Rightarrow> list_all (\<lambda>d. doc_count d \<le> int (?w' (doc_id d))) ds) ?rs'"
      by (simp only: list_all_iff)
    have qs': "q_docs q s' = q_docs q s @ [?x]" using s' by (simp add: q_docs_def)
    have sum: "sum_list (map (?w' \<circ> doc_id) (q_docs q s')) = Suc (sum_list (map (w \<circ> doc_id) (q_docs q s)))"
      using qs' sum_fresh [OF freshq, of w 1] by simp
    have ids: "distinct (map doc_id (docs s'))" "list_all (\<lambda>d. doc_id d < next_uid s') (docs s')"
      using c fresh s' by (auto simp: count_inv_def list_all_iff)
    have cnt: "list_all (\<lambda>d. doc_count d \<le> int (?w' (doc_id d))) (q_docs q s')"
      using old qs' by simp
    have "sum_list (map (w \<circ> doc_id) (q_docs q s)) + length rs \<le> n"
      using c by (simp only: count_inv_def)
    then have sl: "sum_list (map (?w' \<circ> doc_id) (q_docs q s')) + length ?rs' \<le> n"
      using sum len by linarith
    have "count_inv q n s' ?rs' ?w'"
      unfolding count_inv_def using ids cnt snaps sl by blast
    then show ?thesis by blast
  next
    case (Cons d ds')
    let ?i = "doc_id d" and ?c = "doc_count d + 1"
    let ?w' = "w(?i := Suc (w ?i))"
    have dq: "?i \<in> set (map doc_id (q_docs q s))" using r ds Cons by (simp add: snapshot_ok_def)
    then have "?i \<in> set (map doc_id (docs s))" by (auto simp: q_docs_def)
    then have s': "s' = s\<lparr>docs := map (set_count ?i ?c) (docs s)\<rparr>"
      using run ds Cons by (simp add: mem_defs)
    have mono: "w j \<le> ?w' j" for j by simp
    have dbound: "doc_count d \<le> int (w ?i)" using snap_r Cons by simp
    have cnt: "list_all (\<lambda>x. doc_count x \<le> int (?w' (doc_id x))) (q_docs q s')"
      using c3 dbound s' by (auto simp: list_all_iff set_count_def)
    have snaps: "list_all (\<lambda>r. case r_listed r of None \<Rightarrow> True
                   | Some ds \<Rightarrow> list_all (\<lambda>d. doc_count d \<le> int (?w' (doc_id d))) ds) ?rs'"
      using c4 mono sub by (rule snapshots_bounded_mono)
    have "sum_list (map (?w' \<circ> doc_id) (q_docs q s')) = Suc (sum_list (map (w \<circ> doc_id) (q_docs q s)))"
      using sum_bump [OF qd dq, of w] by (simp only: s' q_docs_update map_comp_doc_id_set_count)
    then have sl: "sum_list (map (?w' \<circ> doc_id) (q_docs q s')) + length ?rs' \<le> n"
      using c5 len by linarith
    have ids: "distinct (map doc_id (docs s'))" "list_all (\<lambda>d. doc_id d < next_uid s') (docs s')"
      using c1 c2 s' by (simp_all add: list_all_iff)
    have "count_inv q n s' ?rs' ?w'"
      unfolding count_inv_def using ids cnt snaps sl by blast
    then show ?thesis by blast
  qed
qed

lemma run_schedule_count:
  "race_inv q n s rs \<Longrightarrow> count_inv q n s rs w \<Longrightarrow>
   \<exists>s' rs' w'. run_schedule mem_api sched s rs = Inr (s', rs') \<and> race_inv q n s' rs' \<and> count_inv q n s' rs' w'"
proof (induction sched arbitrary: s rs w)
  case Nil
  then show ?case by auto
next
  case (Cons i sched)
  show ?case
  proof (cases "i < length rs")
    case True
    from rec_phase_inv [OF Cons.prems(1) True] show ?thesis
    proof (elim disjE exE conjE)
      fix s' assume run: "rec_phase mem_api (rs ! i) s = Inr (s', None)"
        and inv: "race_inv q n s' (take i rs @ drop (Suc i) rs)"
      obtain w' where "count_inv q n s' (take i rs @ drop (Suc i) rs) w'"
        using count_inv_done [OF Cons.prems True run] by blast
      with inv run True Cons.IH show ?thesis by simp
    next
      fix r' assume run: "rec_phase mem_api (rs ! i) s = Inr (s, Some r')"
        and inv: "race_inv q n s (rs[i := r'])"
      have "count_inv q n s (rs[i := r']) w"
        using count_inv_listed [OF Cons.prems True run] by blast
      with inv run True Cons.IH show ?thesis by simp
    qed
  next
    case False
    with Cons show ?thesis by simp
  qed
qed

lemma count_inv_init:
  "store_inv s \<Longrightarrow> \<forall>d\<in>set (docs s). searchTerm d \<noteq> q \<Longrightarrow>
   count_inv q (length ms) s (map (new_recorder q) ms) (\<lambda>_. 0)"
  by (auto simp: count_inv_def store_inv_def list_all_iff q_docs_def new_recorder_def filter_empty_conv)

lemma int_sum_list: "int (sum_list (map f xs)) = sum_list (map (\<lambda>x. int (f x)) xs)"
  by (induction xs) simp_all

lemma count_inv_term_count:
  "count_inv q n s rs w \<Longrightarrow> term_count s q + int (length rs) \<le> int n"
proof -
  assume c: "count_inv q n s rs w"
  have "sum_list (map doc_count (q_docs q s)) \<le> sum_list (map (\<lambda>d. int (w (doc_id d))) (q_docs q s))"
    using c by (intro sum_list_mono) (auto simp: count_inv_def list_all_iff)
  also have "\<dots> = int (sum_list (map (w \<circ> doc_id) (q_docs q s)))"
    by (simp add: int_sum_list)
  finally show ?thesis
    using c by (simp add: count_inv_def term_count_def q_docs_def)
qed

text \<open>C12: any number of concurrent \<open>updateSearchCount\<close> calls for a term the
  collection does not hold, interleaved in any order, all succeed; at every point the
  documents for the term plus the calls still running are at most the number of calls,
  and once one call has finished the term's count is at least 1; the count plus the
  calls still running never exceeds the number of calls, so nothing is over-counted. So
  N calls leave between 1 and N documents for the term, not the single one the spec asks
  for, and a count between 1 and N, not exactly N.\<close>

theorem concurrent_recorders_bounds:
  assumes "store_inv s" and "\<forall>d\<in>set (docs s). searchTerm d \<noteq> q"
  shows "\<exists>s' rs'. run_schedule mem_api sched s (map (new_recorder q) ms) = Inr (s', rs') \<and>
            length (filter (\<lambda>d. searchTerm d = q) (docs s')) + length rs' \<le> length ms \<and>
            (length rs' < length ms \<longrightarrow> 1 \<le> term_count s' q) \<and>
            term_count s' q + int (length rs') \<le> int (length ms)"
proof -
  obtain s' rs' w where run: "run_schedule mem_api sched s (map (new_recorder q) ms) = Inr (s', rs')"
    and inv: "race_inv q (length ms) s' rs'" and c: "count_inv q (length ms) s' rs' w"
    using run_schedule_count [OF race_inv_init [OF assms] count_inv_init [OF assms]] by blast
  with race_inv_term_count [OF inv] count_inv_term_count [OF c] show ?thesis
    by (auto simp: race_inv_def q_docs_def)
qed

theorem concurrent_recorders_bounds_witness:
  "\<exists>s' rs'. run_schedule mem_api [0, 1, 2, 0, 0, 0] \<lparr>docs = [], next_uid = 0\<rparr>
              (map (new_recorder ''dune'') [\<lparr>mv_id = 1, mv_title = ''Dune'', poster_path = None\<rparr>,
                                           \<lparr>mv_id = 1, mv_title = ''Dune'', poster_path = None\<rparr>,
                                           \<lparr>mv_id = 1, mv_title = ''Dune'', poster_path = None\<rparr>]) = Inr (s', rs') \<and>
            length (filter (\<lambda>d. searchTerm d = ''dune'') (docs s')) + length rs' \<le> 3"
proof -
  have h1: "store_inv \<lparr>docs = [], next_uid = 0\<rparr>" by (simp add: store_inv_def)
  have h2: "\<forall>d\<in>set (docs \<lparr>docs = [], next_uid = 0\<rparr>). searchTerm d \<noteq> ''dune''" by simp
  show ?thesis
    using concurrent_recorders_bounds [OF h1 h2, of "[0, 1, 2, 0, 0, 0]"
            "[\<lparr>mv_id = 1, mv_title = ''Dune'', poster_path = None\<rparr>,
              \<lparr>mv_id = 1, mv_title = ''Dune'', poster_path = None\<rparr>,
              \<lparr>mv_id = 1, mv_title = ''Dune'', poster_path = None\<rparr>]"]
    by auto
qed

end
