(* ===== verification/ListView.thy ===== *)
theory ListView
  imports Appwrite
begin

text \<open>
  The \<open>FlatList\<close>s of the two screens as the code configures them: the items are the
  \<open>data\<close> array (nothing when it is \<open>null\<close>), each cell's React key is
  \<open>keyExtractor(item)\<close>, and \<open>numColumns\<close> cuts the items into lines of that many
  cells along the list. The keys are \<open>item.id.toString()\<close> for TMDB movies and
  \<open>item.movie_id.toString()\<close> for the trending documents; React needs them distinct
  among siblings. The theory holds the definitions; the screens' lemmas use them.
\<close>

section \<open>Number to string\<close>

text \<open>\<open>Number.prototype.toString()\<close> on an integral number: an optional minus sign, then
  the decimal digits.\<close>

definition js_int_toString :: "int \<Rightarrow> string" where
  "js_int_toString n =
     (if n < 0 then CHR ''-'' # string_of_nat (nat (- n)) else string_of_nat (nat n))"

section \<open>Lists\<close>

text \<open>Lines of a list with \<open>numColumns = n\<close>: consecutive groups of \<open>n\<close> items, the
  last one possibly shorter (React Native treats a \<open>numColumns\<close> below 1 as 1).\<close>

fun grid_rows :: "nat \<Rightarrow> 'a list \<Rightarrow> 'a list list" where
  "grid_rows n [] = []"
| "grid_rows n (x # xs) = take (max 1 n) (x # xs) # grid_rows n (drop (max 1 n) (x # xs))"

record 'a flat_list =
  fl_keys :: "string list"
  fl_rows :: "'a list list"

definition flat_list_of :: "('a \<Rightarrow> string) \<Rightarrow> nat \<Rightarrow> 'a list option \<Rightarrow> 'a flat_list" where
  "flat_list_of keyExtractor numColumns d =
     (let items = (case d of None \<Rightarrow> [] | Some xs \<Rightarrow> xs)
      in \<lparr>fl_keys = map keyExtractor items, fl_rows = grid_rows numColumns items\<rparr>)"

text \<open>\<open>keyExtractor={(item) => item.id.toString()}\<close> and
  \<open>keyExtractor={(item) => item.movie_id.toString()}\<close>.\<close>

definition movie_key :: "movie \<Rightarrow> string" where
  "movie_key m = js_int_toString (mv_id m)"

definition trending_key :: "search_doc \<Rightarrow> string" where
  "trending_key d = js_int_toString (movie_id d)"

end
