(* ===== verification/SearchScreen.thy ===== *)
theory SearchScreen
  imports Api ListView
begin

text \<open>
  The search screen of \<^verbatim>\<open>src/app/(tabs)/search.tsx\<close>, which composes the other
  components: the text input sets \<open>searchQuery\<close>; an effect on \<open>[searchQuery]\<close>
  (re)starts a 500 ms timer whose callback either calls \<open>loadMovies()\<close> (the
  \<open>refetch\<close> of a \<open>useFetch\<close> around \<open>fetchMovies({query})\<close>) or \<open>reset()\<close>; an
  effect on \<open>[movies]\<close> calls \<open>updateSearchCount(searchQuery, movies[0])\<close>. The screen
  is an event machine: the user types, the pending timer fires, a fetch in flight
  settles with the network's answer, the screen is left. Time is abstracted to the order
  of these events: a timer that is replaced before it fires never fires.
  Calls of \<open>updateSearchCount\<close> are not awaited by the screen; they are collected in
  \<open>issued\<close>, in the order the screen makes them.
\<close>

section \<open>State\<close>

record search_screen =
  searchQuery :: string
  timer :: "(string \<times> movie list option) option"
  movies_ctl :: "(movie list, string \<times> movie list option) controller"
  issued :: "(string \<times> movie) list"
  mounted :: bool

datatype search_event =
    Type string
  | TimerFires
  | FetchSettles nat "thrown + movie list http_response"
  | Leave

text \<open>
  The guard after \<open>await loadMovies()\<close> in the timer callback reads
  \<open>movies?.lenght\<close>: no array and no \<open>null\<close> has a property \<open>lenght\<close>, so the read is
  \<open>undefined\<close>, and \<open>undefined > 0\<close> is false.
\<close>

datatype js_val = JsUndefined | JsNum int

definition prop_lenght :: "movie list option \<Rightarrow> js_val" where
  "prop_lenght m = (case m of None \<Rightarrow> JsUndefined | Some xs \<Rightarrow> JsUndefined)"

fun js_gt :: "js_val \<Rightarrow> int \<Rightarrow> bool" where
  "js_gt JsUndefined k = False"
| "js_gt (JsNum n) k = (k < n)"

section \<open>Operations\<close>

text \<open>First render: \<open>searchQuery = ''\<close>, \<open>useFetch(..., false)\<close> does not fetch, and the
  \<open>[searchQuery]\<close> effect starts a timer for the empty query.\<close>

definition search_mount :: search_screen where
  "search_mount =
     \<lparr>searchQuery = [], timer = Some ([], None), movies_ctl = ctl_mount False ([], None),
      issued = [], mounted = True\<rparr>"

text \<open>\<open>onChangeText\<close>: a new value re-renders and re-runs the \<open>[searchQuery]\<close> effect, whose
  cleanup clears the old timer; setting the same value does not re-render. The new
  callback closes over the query and the \<open>movies\<close> of that render.\<close>

definition on_change_text :: "search_screen \<Rightarrow> string \<Rightarrow> search_screen" where
  "on_change_text st s =
     (if s = searchQuery st then st
      else st\<lparr>searchQuery := s, timer := Some (s, data (fstate (movies_ctl st)))\<rparr>)"

text \<open>The timer callback, up to \<open>await loadMovies()\<close>: search for a non-blank query,
  \<open>reset()\<close> otherwise. Resetting makes \<open>movies\<close> \<open>null\<close>, for which the \<open>[movies]\<close>
  effect does nothing.\<close>

definition timer_fires :: "search_screen \<Rightarrow> search_screen" where
  "timer_fires st =
     (case timer st of
        None \<Rightarrow> st
      | Some (q, m) \<Rightarrow>
          if js_trim q \<noteq> []
          then st\<lparr>timer := None, movies_ctl := ctl_trigger (movies_ctl st) (q, m)\<rparr>
          else st\<lparr>timer := None, movies_ctl := ctl_step (movies_ctl st) Reset\<rparr>)"

text \<open>The \<open>[movies]\<close> effect, run when \<open>movies\<close> has changed.\<close>

definition movies_effect :: "search_screen \<Rightarrow> search_screen" where
  "movies_effect st =
     (case data (fstate (movies_ctl st)) of
        Some (m # ms) \<Rightarrow> if js_trim (searchQuery st) \<noteq> []
                          then st\<lparr>issued := issued st @ [(searchQuery st, m)]\<rparr> else st
      | _ \<Rightarrow> st)"

text \<open>The continuation of the timer callback after \<open>await loadMovies()\<close>, with the query
  and \<open>movies\<close> its closure captured.\<close>

definition timer_continuation :: "search_screen \<Rightarrow> string \<Rightarrow> movie list option \<Rightarrow> search_screen" where
  "timer_continuation st q m =
     (case m of
        Some (x # xs) \<Rightarrow> if js_gt (prop_lenght m) 0
                          then st\<lparr>issued := issued st @ [(q, x)]\<rparr> else st
      | _ \<Rightarrow> st)"

text \<open>Call \<open>i\<close> of \<open>fetchMovies\<close> settles with the network's answer: \<open>useFetch\<close> stores
  the outcome; a success sets \<open>movies\<close> to a new array, so the \<open>[movies]\<close> effect runs;
  then the timer callback that started the call resumes with the \<open>movies\<close> it closed
  over.
  Updates to an unmounted screen are dropped.\<close>

definition fetch_settles ::
  "string option \<Rightarrow> search_screen \<Rightarrow> nat \<Rightarrow> thrown + movie list http_response \<Rightarrow> search_screen" where
  "fetch_settles key st i ans =
     (case map_of (inflight (movies_ctl st)) i of
        None \<Rightarrow> st
      | Some (q, m) \<Rightarrow>
          if \<not> mounted st then st
          else
            (let out = fetchMovies (\<lambda>_. ans) key q;
                 st1 = st\<lparr>movies_ctl := ctl_settle (movies_ctl st) i out\<rparr>;
                 st2 = (case out of Resolved r \<Rightarrow> movies_effect st1 | Rejected t \<Rightarrow> st1)
             in timer_continuation st2 q m))"

text \<open>Leaving the screen runs the effect cleanup, which clears the pending timer.\<close>

definition leave :: "search_screen \<Rightarrow> search_screen" where
  "leave st = st\<lparr>timer := None, mounted := False\<rparr>"

fun search_step :: "string option \<Rightarrow> search_screen \<Rightarrow> search_event \<Rightarrow> search_screen" where
  "search_step key st (Type s) = (if mounted st then on_change_text st s else st)"
| "search_step key st TimerFires = timer_fires st"
| "search_step key st (FetchSettles i ans) = fetch_settles key st i ans"
| "search_step key st Leave = leave st"

fun search_run :: "string option \<Rightarrow> search_screen \<Rightarrow> search_event list \<Rightarrow> search_screen" where
  "search_run key st [] = st"
| "search_run key st (e # es) = search_run key (search_step key st e) es"

section \<open>What the screen shows\<close>

text \<open>The list header and the empty-list component: the controlled \<open>SearchBar\<close>
  (\<open>value={searchQuery}\<close>, its placeholder), the spinner while \<open>loading\<close>, the
  error text, the \<open>Search Results for\<close> title, and the text \<open>FlatList\<close> shows when
  \<open>movies\<close> is \<open>null\<close> or empty. Typing in the bar is the event \<open>Type\<close>.\<close>

record search_view =
  input_value :: string
  input_placeholder :: string
  show_spinner :: bool
  error_text :: "string option"
  results_title :: "string option"
  empty_text :: "string option"

definition search_view_of :: "search_screen \<Rightarrow> search_view" where
  "search_view_of st =
     (let f = fstate (movies_ctl st); q = searchQuery st;
          items = (case data f of None \<Rightarrow> [] | Some xs \<Rightarrow> xs)
      in \<lparr>input_value = q, input_placeholder = ''Search movies...'',
          show_spinner = loading f,
          error_text = map_option (\<lambda>msg. ''Error: '' @ msg) (error f),
          results_title = (if \<not> loading f \<and> error f = None \<and> js_trim q \<noteq> [] \<and> items \<noteq> []
                           then Some (''Search Results for '' @ q) else None),
          empty_text = (if items = [] \<and> \<not> loading f \<and> error f = None
                        then Some (if js_trim q \<noteq> [] then ''No movies found'' else ''Search for a movie'')
                        else None)\<rparr>)"

text \<open>The \<open>FlatList\<close> itself: \<open>data={movies}\<close>, cells keyed by
  \<open>item.id.toString()\<close>, three columns.\<close>

definition search_list :: "search_screen \<Rightarrow> movie flat_list" where
  "search_list st = flat_list_of movie_key 3 (data (fstate (movies_ctl st)))"

definition issued_ok :: "search_screen \<Rightarrow> bool" where
  "issued_ok st \<longleftrightarrow> (\<forall>x\<in>set (issued st). js_trim (fst x) \<noteq> [])"

definition requests_ok :: "search_screen \<Rightarrow> bool" where
  "requests_ok st \<longleftrightarrow> (\<forall>p\<in>set (inflight (movies_ctl st)). js_trim (fst (snd p)) \<noteq> [])"

text \<open>Well-formedness of the screen's state: the \<open>useFetch\<close> controller is well formed
  and a pending timer belongs to a mounted screen and carries the query on screen.\<close>

definition search_wf :: "search_screen \<Rightarrow> bool" where
  "search_wf st \<longleftrightarrow>
     ctl_inv (movies_ctl st) \<and>
     (case timer st of None \<Rightarrow> True | Some (q, m) \<Rightarrow> mounted st \<and> q = searchQuery st)"

lemmas screen_defs = on_change_text_def timer_fires_def fetch_settles_def movies_effect_def leave_def

section \<open>Lemmas\<close>

lemma search_run_append: "search_run key st (xs @ ys) = search_run key (search_run key st xs) ys"
  by (induction xs arbitrary: st) simp_all

text \<open>The misspelt guard \<open>movies?.lenght > 0\<close> is never true, so the continuation of
  the timer callback changes nothing.\<close>

lemma timer_continuation_id [simp]: "timer_continuation st q m = st"
  by (simp add: timer_continuation_def prop_lenght_def split: option.splits list.splits)

lemma movies_effect_issued:
  "issued (movies_effect st) =
     issued st @ (case data (fstate (movies_ctl st)) of
                    Some (m # ms) \<Rightarrow> if js_trim (searchQuery st) \<noteq> [] then [(searchQuery st, m)] else []
                  | _ \<Rightarrow> [])"
  by (simp add: movies_effect_def split: option.splits list.splits)

lemma movies_effect_other [simp]:
  "searchQuery (movies_effect st) = searchQuery st" "timer (movies_effect st) = timer st"
  "movies_ctl (movies_effect st) = movies_ctl st" "mounted (movies_effect st) = mounted st"
  by (simp_all add: movies_effect_def split: option.splits list.splits)

lemma in_flight_map_of: "map_of (inflight k) i = Some p \<Longrightarrow> in_flight k i"
  by (force simp: in_flight_def dest: map_of_SomeD)

lemma step_issued_ok: "issued_ok st \<Longrightarrow> issued_ok (search_step key st e)"
proof (cases e)
  case (FetchSettles i ans)
  assume ok: "issued_ok st"
  show ?thesis
  proof (cases "map_of (inflight (movies_ctl st)) i")
    case None
    with ok FetchSettles show ?thesis by (simp add: fetch_settles_def)
  next
    case (Some p)
    with ok FetchSettles show ?thesis
      by (cases p) (auto simp: fetch_settles_def Let_def issued_ok_def movies_effect_issued
                     split: outcome.splits option.splits list.splits)
  qed
qed (auto simp: issued_ok_def screen_defs split: option.splits prod.splits)

lemma run_issued_ok: "issued_ok st \<Longrightarrow> issued_ok (search_run key st es)"
  by (induction es arbitrary: st) (simp_all add: step_issued_ok)

text \<open>C6: the screen never records a search for an empty or whitespace-only term:
  every \<open>updateSearchCount\<close> call it makes, in any run, has a term that is not blank
  after trimming.\<close>

theorem issued_terms_not_blank:
  "\<forall>x\<in>set (issued (search_run key search_mount es)). js_trim (fst x) \<noteq> []"
proof -
  have "issued_ok search_mount" by (simp add: issued_ok_def search_mount_def)
  then show ?thesis using run_issued_ok unfolding issued_ok_def by blast
qed

theorem issued_terms_not_blank_witness:
  "issued (search_run (Some ''k'') search_mount
      [Type '' '', TimerFires, Type ''a'', TimerFires,
       FetchSettles 0 (Inr \<lparr>status = 200, results = [\<lparr>mv_id = 1, mv_title = ''A'', poster_path = None\<rparr>]\<rparr>)]) \<noteq> [] \<and>
   js_trim (fst (hd (issued (search_run (Some ''k'') search_mount
      [Type '' '', TimerFires, Type ''a'', TimerFires,
       FetchSettles 0 (Inr \<lparr>status = 200, results = [\<lparr>mv_id = 1, mv_title = ''A'', poster_path = None\<rparr>]\<rparr>)])))) \<noteq> []"
proof -
  let ?es = "[Type '' '', TimerFires, Type ''a'', TimerFires,
       FetchSettles 0 (Inr \<lparr>status = 200, results = [\<lparr>mv_id = 1, mv_title = ''A'', poster_path = None\<rparr>]\<rparr>)]"
  have ne: "issued (search_run (Some ''k'') search_mount ?es) \<noteq> []"
    by (simp add: search_mount_def ctl_defs init_fetch_state_def on_change_text_def timer_fires_def
        fetch_settles_def fetchMovies_def response_ok_def movies_effect_def js_defs)
  then have "hd (issued (search_run (Some ''k'') search_mount ?es)) \<in> set (issued (search_run (Some ''k'') search_mount ?es))"
    by simp
  with ne show ?thesis using issued_terms_not_blank [of "(Some ''k'')" ?es] by blast
qed

text \<open>C8: a settling search call makes exactly one \<open>updateSearchCount\<close> call when it
  succeeds with a non-empty list and the current query is not blank, and none otherwise;
  the call uses the query on screen at settlement and the first result. The second call
  site, in the timer callback, never fires.\<close>

theorem fetch_settles_issued:
  assumes "map_of (inflight (movies_ctl st)) i = Some (q, m)" and "mounted st"
  shows "issued (fetch_settles key st i ans) =
           issued st @ (case fetchMovies (\<lambda>_. ans) key q of
                          Resolved (x # xs) \<Rightarrow>
                            if js_trim (searchQuery st) \<noteq> [] then [(searchQuery st, x)] else []
                        | _ \<Rightarrow> [])"
proof -
  have "in_flight (movies_ctl st) i" using assms(1) by (rule in_flight_map_of)
  then show ?thesis
    using assms
    by (auto simp: fetch_settles_def Let_def movies_effect_issued ctl_settle_def
             split: outcome.splits list.splits)
qed

theorem fetch_settles_issued_witness:
  "issued (fetch_settles (Some ''k'') (search_run (Some ''k'') search_mount [Type ''batman'', TimerFires]) 0
      (Inr \<lparr>status = 200, results = [\<lparr>mv_id = 155, mv_title = ''The Batman'', poster_path = None\<rparr>]\<rparr>)) =
   [(''batman'', \<lparr>mv_id = 155, mv_title = ''The Batman'', poster_path = None\<rparr>)]"
proof -
  let ?st = "search_run (Some ''k'') search_mount [Type ''batman'', TimerFires]"
  have h1: "map_of (inflight (movies_ctl ?st)) 0 = Some (''batman'', None)"
    by (simp add: search_mount_def ctl_defs on_change_text_def timer_fires_def js_trim_def
        is_js_ws_def init_fetch_state_def)
  have h2: "mounted ?st" by (simp add: search_mount_def on_change_text_def timer_fires_def)
  have h3: "issued ?st = [] \<and> searchQuery ?st = ''batman''"
    by (simp add: search_mount_def on_change_text_def timer_fires_def)
  show ?thesis
    using fetch_settles_issued [OF h1 h2, of "(Some ''k'')"] h3
    by (simp add: fetchMovies_def response_ok_def js_defs)
qed

lemma run_types:
  assumes "mounted st"
  shows "search_run key st (map Type qs) =
           (if \<forall>q\<in>set qs. q = searchQuery st then st
            else st\<lparr>searchQuery := last qs, timer := Some (last qs, data (fstate (movies_ctl st)))\<rparr>)"
  using assms
proof (induction qs arbitrary: st)
  case Nil
  then show ?case by simp
next
  case (Cons q qs)
  show ?case
  proof (cases "q = searchQuery st")
    case True
    with Cons show ?thesis by (simp add: on_change_text_def)
  next
    case False
    let ?st1 = "st\<lparr>searchQuery := q, timer := Some (q, data (fstate (movies_ctl st)))\<rparr>"
    have "search_run key st (map Type (q # qs)) = search_run key ?st1 (map Type qs)"
      using Cons.prems False by (simp add: on_change_text_def)
    also have "\<dots> = (if \<forall>x\<in>set qs. x = q then ?st1
                     else ?st1\<lparr>searchQuery := last qs, timer := Some (last qs, data (fstate (movies_ctl st)))\<rparr>)"
      using Cons.IH [of ?st1] Cons.prems by simp
    also have "\<dots> = st\<lparr>searchQuery := last (q # qs), timer := Some (last (q # qs), data (fstate (movies_ctl st)))\<rparr>"
    proof (cases "\<forall>x\<in>set qs. x = q")
      case True
      then have "last (q # qs) = q" by (induction qs) auto
      with True show ?thesis by simp
    next
      case False
      then have "qs \<noteq> []" by auto
      with False show ?thesis by (simp del: ball_simps)
    qed
    finally show ?thesis using False by simp
  qed
qed

text \<open>C5: debouncing: a burst of input changes, with the timer firing only after the
  last one, starts no fetch and records nothing until then; when the timer fires, the
  screen makes exactly one call for the last value: a search with that value when it is
  not blank after trimming, \<open>reset()\<close> when it is.\<close>

theorem debounce_commits_last_value:
  assumes "mounted st" and "\<exists>q\<in>set qs. q \<noteq> searchQuery st"
  shows "(let st' = search_run key st (map Type qs @ [TimerFires]) in
            timer st' = None \<and> issued st' = issued st \<and> searchQuery st' = last qs \<and>
            movies_ctl st' =
              (if js_trim (last qs) \<noteq> []
               then ctl_trigger (movies_ctl st) (last qs, data (fstate (movies_ctl st)))
               else ctl_step (movies_ctl st) Reset))"
proof -
  have "search_run key st (map Type qs) =
          st\<lparr>searchQuery := last qs, timer := Some (last qs, data (fstate (movies_ctl st)))\<rparr>"
    using run_types [OF assms(1)] assms(2) by auto
  then show ?thesis by (simp add: search_run_append timer_fires_def)
qed

theorem debounce_commits_last_value_witness:
  "let st' = search_run (Some ''k'') search_mount (map Type [''b'', ''ba'', ''bat''] @ [TimerFires]) in
     timer st' = None \<and> issued st' = [] \<and> searchQuery st' = ''bat'' \<and>
     movies_ctl st' = ctl_trigger (movies_ctl search_mount) (''bat'', None)"
proof -
  have h1: "mounted search_mount" by (simp add: search_mount_def)
  have h2: "\<exists>q\<in>set [''b'', ''ba'', ''bat'']. q \<noteq> searchQuery search_mount"
    by (simp add: search_mount_def)
  have "js_trim ''bat'' \<noteq> []" by (simp add: js_defs)
  then show ?thesis
    using debounce_commits_last_value [OF h1 h2, of "(Some ''k'')"]
    by (simp add: search_mount_def ctl_defs init_fetch_state_def)
qed

text \<open>C28: after the screen is left, nothing it does changes anything: input, timers and
  late settlements are all ignored, so no fetch starts and no search is recorded.\<close>

theorem leave_is_final: "search_run key (leave st) es = leave st"
proof (induction es)
  case Nil
  then show ?case by simp
next
  case (Cons e es)
  have "search_step key (leave st) e = leave st"
    by (cases e) (simp_all add: screen_defs split: option.splits prod.splits)
  with Cons show ?case by simp
qed

lemmas trace_simps = search_mount_def ctl_defs init_fetch_state_def on_change_text_def
  timer_fires_def fetch_settles_def fetchMovies_def response_ok_def movies_effect_def
  js_defs

text \<open>C23: the term recorded is the query on screen when the results arrive, not the
  query that produced them: a search for \<open>bat\<close> that settles after the input has become
  \<open>batman\<close> records \<open>batman\<close> with the first result for \<open>bat\<close>.\<close>

theorem recorded_term_is_current_query:
  "map_of (inflight (movies_ctl (search_run key search_mount [Type ''bat'', TimerFires, Type ''batman'']))) 0 =
     Some (''bat'', None) \<and>
   issued (search_run key search_mount
     [Type ''bat'', TimerFires, Type ''batman'', FetchSettles 0 (Inr \<lparr>status = 200, results = m # ms\<rparr>)]) =
     [(''batman'', m)]"
  by (simp add: trace_simps)

text \<open>C24: clearing the input while a search is in flight: the timer resets the
  controller, but the search settles afterwards and its results are shown again for an
  empty query; no search is recorded.\<close>

theorem cleared_query_shows_stale_results:
  "let st = search_run key search_mount
              [Type ''batman'', TimerFires, Type [], TimerFires,
               FetchSettles 0 (Inr \<lparr>status = 200, results = m # ms\<rparr>)]
   in searchQuery st = [] \<and> data (fstate (movies_ctl st)) = Some (m # ms) \<and> issued st = []"
  by (simp add: trace_simps)

lemma js_trim_not_Nil_truthy: "js_trim q \<noteq> [] \<Longrightarrow> js_truthy_str q"
  by (auto simp: js_truthy_str_def js_trim_def)

lemma step_requests_ok: "requests_ok st \<Longrightarrow> requests_ok (search_step key st e)"
proof (cases e)
  case (FetchSettles i ans)
  assume ok: "requests_ok st"
  then show ?thesis using FetchSettles
    by (auto simp: fetch_settles_def Let_def requests_ok_def ctl_settle_def
             split: option.splits prod.splits outcome.splits)
qed (auto simp: requests_ok_def screen_defs ctl_trigger_def split: option.splits prod.splits)

lemma run_requests_ok: "requests_ok st \<Longrightarrow> requests_ok (search_run key st es)"
  by (induction es arbitrary: st) (simp_all add: step_requests_ok)

text \<open>C7: the screen never sends a search for blank input: in every run, each
  \<open>fetchMovies\<close> call in flight has a query that is not blank after trimming, so its
  request goes to the search endpoint, never to the popularity listing.\<close>

theorem requests_not_blank:
  "\<forall>p\<in>set (inflight (movies_ctl (search_run key search_mount es))).
     js_trim (fst (snd p)) \<noteq> [] \<and>
     (\<exists>enc. fetchMovies_endpoint key (fst (snd p)) =
              ''https://api.themoviedb.org/3/search/movie?query='' @ enc)"
proof -
  have "requests_ok search_mount"
    by (simp add: requests_ok_def search_mount_def ctl_defs)
  then have "requests_ok (search_run key search_mount es)" by (rule run_requests_ok)
  then show ?thesis
    by (auto simp: requests_ok_def fetchMovies_endpoint_def TMDB_CONFIG_def
             dest: js_trim_not_Nil_truthy)
qed

theorem requests_not_blank_witness:
  "js_trim (fst (snd (hd (inflight (movies_ctl (search_run (Some ''k'') search_mount
      [Type '' '', TimerFires, Type ''dune'', TimerFires])))))) \<noteq> []"
proof -
  let ?st = "search_run (Some ''k'') search_mount [Type '' '', TimerFires, Type ''dune'', TimerFires]"
  have "inflight (movies_ctl ?st) \<noteq> []"
    by (simp add: search_mount_def ctl_defs on_change_text_def timer_fires_def js_defs)
  then have "hd (inflight (movies_ctl ?st)) \<in> set (inflight (movies_ctl ?st))" by simp
  then show ?thesis using requests_not_blank [of "(Some ''k'')" "[Type '' '', TimerFires, Type ''dune'', TimerFires]"]
    by blast
qed

text \<open>C26: while the debounce timer is pending no search has run, yet the screen already
  says \<open>No movies found\<close> for the typed query; after the search resolves it shows the
  results under \<open>Search Results for\<close> and no empty text.\<close>

theorem no_movies_found_before_search:
  "js_trim q \<noteq> [] \<Longrightarrow>
   empty_text (search_view_of (search_run key search_mount [Type q])) = Some ''No movies found'' \<and>
   inflight (movies_ctl (search_run key search_mount [Type q])) = [] \<and>
   results_title (search_view_of (search_run key search_mount
      [Type q, TimerFires, FetchSettles 0 (Inr \<lparr>status = 200, results = m # ms\<rparr>)])) =
     Some (''Search Results for '' @ q) \<and>
   empty_text (search_view_of (search_run key search_mount
      [Type q, TimerFires, FetchSettles 0 (Inr \<lparr>status = 200, results = m # ms\<rparr>)])) = None"
proof -
  assume q: "js_trim q \<noteq> []"
  then have "q \<noteq> []" by (auto simp: js_trim_def)
  with q show ?thesis
    by (simp add: search_view_of_def search_mount_def ctl_defs init_fetch_state_def on_change_text_def
        timer_fires_def fetch_settles_def fetchMovies_def response_ok_def movies_effect_def)
qed

theorem no_movies_found_before_search_witness:
  "empty_text (search_view_of (search_run (Some ''k'') search_mount [Type ''dune''])) = Some ''No movies found''"
proof -
  have "js_trim ''dune'' \<noteq> []" by (simp add: js_defs)
  then show ?thesis using no_movies_found_before_search [of "''dune''" "(Some ''k'')"] by blast
qed

lemma step_search_wf: "search_wf st \<Longrightarrow> search_wf (search_step key st e)"
proof -
  assume wf: "search_wf st"
  then have k: "ctl_inv (movies_ctl st)" by (simp add: search_wf_def)
  have trig: "ctl_inv (ctl_trigger (movies_ctl st) c)" for c
    using ctl_step_inv [OF k, of "Trigger c"] by simp
  have rst: "ctl_inv (ctl_step (movies_ctl st) Reset)"
    using ctl_step_inv [OF k] .
  have stl: "ctl_inv (ctl_settle (movies_ctl st) i out)" for i out
    using ctl_step_inv [OF k, of "Settle i out"] by simp
  show ?thesis
  proof (cases e)
    case TimerFires
    with wf trig rst show ?thesis
      by (auto simp: search_wf_def timer_fires_def simp del: ctl_step.simps split: option.splits)
  next
    case (FetchSettles i ans)
    with wf stl show ?thesis
      by (auto simp: search_wf_def fetch_settles_def Let_def split: option.splits outcome.splits)
  qed (use wf in \<open>auto simp: search_wf_def on_change_text_def leave_def split: option.splits\<close>)
qed

lemma run_search_wf: "search_wf st \<Longrightarrow> search_wf (search_run key st es)"
  by (induction es arbitrary: st) (simp_all add: step_search_wf)

lemma search_mount_wf: "search_wf search_mount"
  by (simp add: search_wf_def search_mount_def ctl_mount_inv)

text \<open>C16: every state the search screen reaches from its first render is well formed:
  its \<open>useFetch\<close> controller satisfies the controller invariant (\<open>loading\<close> only with a
  call in flight, call numbers distinct and already issued), and a pending debounce timer
  exists only on a mounted screen and carries the query on screen.\<close>

theorem search_reachable_wf: "search_wf (search_run key search_mount es)"
  by (rule run_search_wf [OF search_mount_wf])

theorem search_reachable_wf_witness:
  "timer (search_run (Some ''k'') search_mount [Type ''bat'', TimerFires, Type ''batman'']) = Some (''batman'', None) \<and>
   searchQuery (search_run (Some ''k'') search_mount [Type ''bat'', TimerFires, Type ''batman'']) = ''batman'' \<and>
   loading (fstate (movies_ctl (search_run (Some ''k'') search_mount [Type ''bat'', TimerFires, Type ''batman'']))) \<and>
   map fst (inflight (movies_ctl (search_run (Some ''k'') search_mount [Type ''bat'', TimerFires, Type ''batman'']))) = [0]"
  using search_reachable_wf [of "(Some ''k'')" "[Type ''bat'', TimerFires, Type ''batman'']"]
  by (simp add: search_wf_def ctl_inv_def trace_simps)

text \<open>A settlement on a mounted screen settles the call in the hook, whatever the
  effects it triggers do, and the screen stays mounted.\<close>

lemma fetch_settles_ctl:
  assumes "mounted st"
  shows "\<exists>out. movies_ctl (fetch_settles key st i ans) = ctl_settle (movies_ctl st) i out \<and>
               mounted (fetch_settles key st i ans)"
proof (cases "map_of (inflight (movies_ctl st)) i")
  case None
  then have "\<not> in_flight (movies_ctl st) i"
    by (auto simp: in_flight_def map_of_eq_None_iff)
  with None assms show ?thesis by (simp add: fetch_settles_def ctl_settle_def)
next
  case (Some p)
  obtain q m where "p = (q, m)" by (cases p)
  with Some assms show ?thesis
    by (auto simp: fetch_settles_def Let_def split: outcome.split)
qed

text \<open>C4: the spinner of the search screen always goes away: from any state the screen
  reaches while it stays mounted, once every search call in flight has settled, in any
  order and with any answers (repeats and unknown call numbers ignored), \<open>loading\<close> is
  false, so no spinner is shown.\<close>

theorem search_settle_all_clears_spinner:
  assumes "mounted (search_run key search_mount es)"
    and "set (map fst (inflight (movies_ctl (search_run key search_mount es)))) \<subseteq> set ids"
  shows "\<not> show_spinner (search_view_of
            (search_run key (search_run key search_mount es) (map (\<lambda>i. FetchSettles i (ans i)) ids)))"
proof -
  have "ctl_inv (movies_ctl st) \<Longrightarrow> mounted st \<Longrightarrow> set (map fst (inflight (movies_ctl st))) \<subseteq> set ids \<Longrightarrow>
        inflight (movies_ctl (search_run key st (map (\<lambda>i. FetchSettles i (ans i)) ids))) = [] \<and>
        ctl_inv (movies_ctl (search_run key st (map (\<lambda>i. FetchSettles i (ans i)) ids)))" for st
  proof (induction ids arbitrary: st)
    case Nil
    then show ?case by simp
  next
    case (Cons i ids)
    obtain out where k: "movies_ctl (fetch_settles key st i (ans i)) = ctl_settle (movies_ctl st) i out"
      and mt: "mounted (fetch_settles key st i (ans i))"
      using fetch_settles_ctl [OF Cons.prems(2)] by blast
    have "ctl_inv (ctl_settle (movies_ctl st) i out)"
      using ctl_step_inv [OF Cons.prems(1), of "Settle i out"] by simp
    moreover have "set (map fst (inflight (ctl_settle (movies_ctl st) i out))) \<subseteq> set ids"
      using Cons.prems(3) by (intro ctl_settle_inflight_subset) simp
    ultimately show ?case using Cons.IH [of "fetch_settles key st i (ans i)"] k mt by simp
  qed
  moreover have "ctl_inv (movies_ctl (search_run key search_mount es))"
    using run_search_wf [OF search_mount_wf] by (simp add: search_wf_def)
  ultimately show ?thesis
    using assms by (fastforce simp: search_view_of_def Let_def ctl_inv_def)
qed

theorem search_settle_all_clears_spinner_witness:
  "\<not> show_spinner (search_view_of
      (search_run (Some ''k'') (search_run (Some ''k'') search_mount [Type ''dune'', TimerFires, Type ''dunes'', TimerFires])
         (map (\<lambda>i. FetchSettles i (Inl ThrownValue)) [1, 0])))"
proof -
  let ?es = "[Type ''dune'', TimerFires, Type ''dunes'', TimerFires]"
  have h1: "mounted (search_run (Some ''k'') search_mount ?es)"
    by (simp add: trace_simps)
  have h2: "set (map fst (inflight (movies_ctl (search_run (Some ''k'') search_mount ?es)))) \<subseteq> set [1, 0]"
    by (simp add: trace_simps)
  show ?thesis using search_settle_all_clears_spinner [OF h1 h2] .
qed

end
