(* ===== verification/IndexScreen.thy ===== *)
theory IndexScreen
  imports Api ListView
begin

text \<open>
  The home screen of \<^verbatim>\<open>src/app/(tabs)/index.tsx\<close>: two \<open>useFetch\<close> instances that
  fetch on mount, one over \<open>getTrendingMovies\<close> and one over
  \<open>fetchMovies({query: ''})\<close>, and the choice of what the screen shows (a spinner while
  either loads, an error text when either failed, the lists otherwise).
  \<^verbatim>\<open>src/services/appwrite.ts\<close> exports no \<open>getTrendingMovies\<close>, so the import is
  \<open>undefined\<close> and the first controller's \<open>fetchFunction()\<close> throws a \<open>TypeError\<close>
  before its first \<open>await\<close>; the \<open>catch\<close> of \<open>fetchData\<close> stores it at once. The
  engine's message is a parameter \<open>type_error\<close>.
\<close>

record index_screen =
  trending :: "(search_doc list, unit) controller"
  latest :: "(movie list, unit) controller"

text \<open>The content branch: the \<open>Trending Movies\<close> title when \<open>trendingMovies\<close> is
  truthy, the horizontal trending list keyed by \<open>movie_id\<close>, the latest movies in three
  columns keyed by \<open>id\<close>, and the route the search bar pushes.\<close>

record index_content =
  trending_title :: bool
  trending_list :: "search_doc flat_list"
  latest_list :: "movie flat_list"
  search_route :: string

datatype index_view = IndexLoading | IndexError string | IndexContent index_content

text \<open>Mounting: both effects call \<open>fetchData\<close>; the trending call settles synchronously
  with the thrown \<open>TypeError\<close>, the latest-movies call is in flight.\<close>

definition index_mount :: "string \<Rightarrow> index_screen" where
  "index_mount type_error =
     \<lparr>trending = ctl_settle (ctl_mount True ()) 0 (Rejected (ThrownError type_error)),
      latest = ctl_mount True ()\<rparr>"

text \<open>The latest-movies request settles with the network's answer.\<close>

definition latest_settles :: "string option \<Rightarrow> index_screen \<Rightarrow> thrown + movie list http_response \<Rightarrow> index_screen" where
  "latest_settles key st ans =
     st\<lparr>latest := ctl_settle (latest st) 0 (fetchMovies (\<lambda>_. ans) key [])\<rparr>"

text \<open>\<open>moviesError?.message || trendingError?.message\<close>: the first message that is a
  non-empty string; React renders an \<open>undefined\<close> child as nothing.\<close>

definition js_or_msg :: "string option \<Rightarrow> string option \<Rightarrow> string" where
  "js_or_msg a b =
     (case a of Some s \<Rightarrow> if js_truthy_str s then s else (case b of Some t \<Rightarrow> t | None \<Rightarrow> [])
              | None \<Rightarrow> (case b of Some t \<Rightarrow> t | None \<Rightarrow> []))"

definition index_view_of :: "index_screen \<Rightarrow> index_view" where
  "index_view_of st =
     (let m = fstate (latest st); t = fstate (trending st) in
      if loading m \<or> loading t then IndexLoading
      else if error m \<noteq> None \<or> error t \<noteq> None then IndexError (js_or_msg (error m) (error t))
      else IndexContent
             \<lparr>trending_title = (data t \<noteq> None), trending_list = flat_list_of trending_key 1 (data t),
              latest_list = flat_list_of movie_key 3 (data m), search_route = ''/search''\<rparr>)"

text \<open>C27: the home screen never shows its content: it shows the spinner until the
  latest-movies request settles and then, whatever the network answered, the error text,
  because the trending controller always holds the \<open>TypeError\<close> of calling the missing
  \<open>getTrendingMovies\<close>.\<close>

theorem index_never_shows_content:
  "index_view_of (index_mount type_error) = IndexLoading \<and>
   (\<exists>msg. index_view_of (latest_settles key (index_mount type_error) ans) = IndexError msg)"
  by (simp add: index_view_of_def index_mount_def latest_settles_def ctl_defs init_fetch_state_def
      fetchMovies_def split: sum.splits outcome.splits)

text \<open>C21: the text of the home screen's error once the latest-movies request has
  settled: the movies error comes first when its message is non-empty (an HTTP failure's
  status message, the network's own message, or the generic message for a thrown
  non-\<open>Error\<close>); when the list loaded, or the thrown error's message is empty, the text is
  the \<open>TypeError\<close> of the missing \<open>getTrendingMovies\<close>. A network failure shows the
  message \<open>fetch\<close> rejects with, not the status message the comment at
  \<^verbatim>\<open>api.ts:37\<close> announces for it.\<close>

theorem index_error_text:
  "index_view_of (latest_settles key (index_mount type_error) (Inr r)) =
     IndexError (if response_ok r then type_error else fetch_error_msg (status r)) \<and>
   index_view_of (latest_settles key (index_mount type_error) (Inl (ThrownError msg))) =
     IndexError (if msg = [] then type_error else msg) \<and>
   index_view_of (latest_settles key (index_mount type_error) (Inl ThrownValue)) =
     IndexError generic_error_msg"
  by (simp add: index_view_of_def index_mount_def latest_settles_def ctl_defs init_fetch_state_def
      fetchMovies_def js_or_msg_def js_truthy_str_def fetch_error_msg_def generic_error_msg_def)

end
