(* ===== verification/AppwriteClient.thy ===== *)
theory AppwriteClient
  imports Appwrite
begin

text \<open>
  The Appwrite client of \<^verbatim>\<open>src/services/appwrite.ts\<close>, lines 5-13: the four
  identifiers read from \<open>process.env\<close> (the cast \<open>as string\<close> checks nothing, so an
  unset variable is \<open>undefined\<close>), the client built from the endpoint and project, and
  the \<open>database\<close> handle whose methods \<open>updateSearchCount\<close> calls with
  \<open>DATABASE_ID\<close> and \<open>COLLECTION_ID\<close>. Building the client is fallible: an unset
  endpoint makes the module throw at load, so \<open>database\<close> is a \<open>load_error\<close> or
  the handle.

  The server side is modelled from the spec: an Appwrite project holds collections
  addressed by a database and a collection identifier, each a \<open>mem_store\<close>. The SDK
  methods reject an \<open>undefined\<close> identifier before sending anything, with the
  message \<open>Missing required parameter: "<name>"\<close>; a request
  reaches the project only when the client's endpoint and project are the server's; a
  missing collection is an error. The theory shows that \<open>database\<close> acts on the
  addressed collection exactly as \<open>mem_api\<close> does, so every lemma of
  \<^theory_text>\<open>Appwrite\<close> about \<open>mem_api\<close> holds of the real handle.
\<close>

section \<open>Configuration and client\<close>

type_synonym js_env = "string \<Rightarrow> string option"

record appwrite_config =
  DATABASE_ID :: "string option"
  COLLECTION_ID :: "string option"
  ENDPOINT :: "string option"
  PROJECT_ID :: "string option"

definition appwrite_config_of :: "js_env \<Rightarrow> appwrite_config" where
  "appwrite_config_of env =
     \<lparr>DATABASE_ID = env ''EXPO_PUBLIC_APPWRITE_DATABASE_ID'',
      COLLECTION_ID = env ''EXPO_PUBLIC_APPWRITE_COLLECTION_ID'',
      ENDPOINT = env ''EXPO_PUBLIC_APPWRITE_ENDPOINT'',
      PROJECT_ID = env ''EXPO_PUBLIC_APPWRITE_PROJECT_ID''\<rparr>"

text \<open>An exception thrown while the module is evaluated: the import of
  \<^verbatim>\<open>appwrite.ts\<close> fails with it.\<close>

datatype load_error = TypeError string

text \<open>\<open>new Client().setEndpoint(ENDPOINT).setProject(PROJECT_ID)\<close>: the SDK's
  \<open>setEndpoint\<close> calls \<open>endpoint.startsWith(...)\<close> on its argument, so an
  \<open>undefined\<close> endpoint throws a \<open>TypeError\<close> at module load; \<open>setProject\<close> only
  stores its argument, \<open>undefined\<close> included.\<close>

definition endpoint_type_error :: string where
  "endpoint_type_error =
     ''Cannot read properties of undefined (reading '' @ [CHR 0x27] @ ''startsWith'' @ [CHR 0x27] @ '')''"

record appwrite_client =
  cl_endpoint :: string
  cl_project :: "string option"

definition client_of :: "appwrite_config \<Rightarrow> load_error + appwrite_client" where
  "client_of cfg =
     (case ENDPOINT cfg of
        None \<Rightarrow> Inl (TypeError endpoint_type_error)
      | Some e \<Rightarrow> Inr \<lparr>cl_endpoint = e, cl_project = PROJECT_ID cfg\<rparr>)"

section \<open>The server\<close>

record appwrite_server =
  srv_endpoint :: string
  srv_project :: string
  collections :: "string \<times> string \<Rightarrow> mem_store option"

text \<open>The collection a call addresses: the SDK's check of its required identifier
  parameters (\<open>databaseId\<close> first, in the SDK's words), then the project and the
  collection on the server.\<close>

definition missing_param :: "string \<Rightarrow> string" where
  "missing_param p = ''Missing required parameter: '' @ [CHR 0x22] @ p @ [CHR 0x22]"

definition db_target :: "appwrite_config \<Rightarrow> store_error + (string \<times> string)" where
  "db_target cfg =
     (case DATABASE_ID cfg of
        None \<Rightarrow> Inl (StoreError (missing_param ''databaseId''))
      | Some db \<Rightarrow>
          (case COLLECTION_ID cfg of
             None \<Rightarrow> Inl (StoreError (missing_param ''collectionId''))
           | Some c \<Rightarrow> Inr (db, c)))"

definition server_collection ::
  "appwrite_client \<Rightarrow> appwrite_config \<Rightarrow> appwrite_server \<Rightarrow> store_error + mem_store" where
  "server_collection cl cfg srv =
     (case db_target cfg of
        Inl e \<Rightarrow> Inl e
      | Inr p \<Rightarrow>
          if cl_endpoint cl = srv_endpoint srv \<and> cl_project cl = Some (srv_project srv)
          then (case collections srv p of
                  None \<Rightarrow> Inl (StoreError ''collection_not_found'')
                | Some st \<Rightarrow> Inr st)
          else Inl (StoreError ''project_not_found''))"

definition server_put :: "appwrite_config \<Rightarrow> appwrite_server \<Rightarrow> mem_store \<Rightarrow> appwrite_server" where
  "server_put cfg srv st =
     (case db_target cfg of
        Inl e \<Rightarrow> srv
      | Inr p \<Rightarrow> srv\<lparr>collections := (collections srv)(p \<mapsto> st)\<rparr>)"

text \<open>\<open>database.listDocuments(DATABASE_ID, COLLECTION_ID, ...)\<close>,
  \<open>database.updateDocument(DATABASE_ID, COLLECTION_ID, ...)\<close> and
  \<open>database.createDocument(DATABASE_ID, COLLECTION_ID, ID.unique(), ...)\<close>.\<close>

definition database_api :: "appwrite_client \<Rightarrow> appwrite_config \<Rightarrow> appwrite_server store_api" where
  "database_api cl cfg =
     \<lparr>listDocuments = (\<lambda>q srv.
        case server_collection cl cfg srv of Inl e \<Rightarrow> Inl e | Inr st \<Rightarrow> mem_list q st),
      updateDocument = (\<lambda>i c srv.
        case server_collection cl cfg srv of
          Inl e \<Rightarrow> Inl e
        | Inr st \<Rightarrow> (case mem_update i c st of Inl e \<Rightarrow> Inl e | Inr st' \<Rightarrow> Inr (server_put cfg srv st'))),
      createDocument = (\<lambda>q mid c t u srv.
        case server_collection cl cfg srv of
          Inl e \<Rightarrow> Inl e
        | Inr st \<Rightarrow> (case mem_create q mid c t u st of Inl e \<Rightarrow> Inl e | Inr st' \<Rightarrow> Inr (server_put cfg srv st')))\<rparr>"

text \<open>\<open>export const database = new Databases(client)\<close>, reached only when building the
  client did not throw.\<close>

definition database :: "js_env \<Rightarrow> load_error + appwrite_server store_api" where
  "database env =
     (case client_of (appwrite_config_of env) of
        Inl e \<Rightarrow> Inl e
      | Inr cl \<Rightarrow> Inr (database_api cl (appwrite_config_of env)))"

section \<open>Lemmas\<close>

lemma database_api_calls [simp]:
  "listDocuments (database_api cl cfg) q srv =
     (case server_collection cl cfg srv of Inl e \<Rightarrow> Inl e | Inr st \<Rightarrow> mem_list q st)"
  "updateDocument (database_api cl cfg) i c srv =
     (case server_collection cl cfg srv of Inl e \<Rightarrow> Inl e
      | Inr st \<Rightarrow> (case mem_update i c st of Inl e \<Rightarrow> Inl e | Inr st' \<Rightarrow> Inr (server_put cfg srv st')))"
  "createDocument (database_api cl cfg) q mid c t u srv =
     (case server_collection cl cfg srv of Inl e \<Rightarrow> Inl e
      | Inr st \<Rightarrow> (case mem_create q mid c t u st of Inl e \<Rightarrow> Inl e | Inr st' \<Rightarrow> Inr (server_put cfg srv st')))"
  by (simp_all add: database_api_def)

lemma server_collection_put:
  "server_collection cl cfg srv = Inr st \<Longrightarrow> server_collection cl cfg (server_put cfg srv st') = Inr st'"
  by (auto simp: server_collection_def server_put_def split: sum.splits if_splits option.splits)

lemma server_put_put:
  "server_put cfg (server_put cfg srv st) st' = server_put cfg srv st'"
  by (simp add: server_put_def split: sum.split)

text \<open>One call on the real handle is the same call on the addressed collection.\<close>

lemma updateSearchCount_database:
  assumes "server_collection cl cfg srv = Inr st"
  shows "updateSearchCount (database_api cl cfg) q m srv =
           (case updateSearchCount mem_api q m st of Inl e \<Rightarrow> Inl e | Inr st' \<Rightarrow> Inr (server_put cfg srv st'))"
proof (cases "filter (\<lambda>d. searchTerm d = q) (docs st)")
  case Nil
  with assms show ?thesis
    by (simp add: updateSearchCount_def usc_query_def mem_list_def mem_create_def)
next
  case (Cons d ds)
  with assms show ?thesis
    by (simp add: updateSearchCount_def usc_query_def mem_list_def split: sum.split)
qed

lemma updateSearchCount_database_error:
  "server_collection cl cfg srv = Inl e \<Longrightarrow> updateSearchCount (database_api cl cfg) q m srv = Inl e"
  by (simp add: updateSearchCount_def usc_query_def)

text \<open>C33: an unset identifier stops the recorder: with
  \<open>EXPO_PUBLIC_APPWRITE_ENDPOINT\<close> unset, loading \<^verbatim>\<open>appwrite.ts\<close> throws the
  \<open>TypeError\<close> of \<open>setEndpoint(undefined)\<close>, so no \<open>database\<close> is exported; with
  the endpoint set and \<open>EXPO_PUBLIC_APPWRITE_DATABASE_ID\<close> unset, every
  \<open>updateSearchCount\<close> on the exported \<open>database\<close> rejects with the SDK's
  \<open>Missing required parameter: "databaseId"\<close> before any request, and likewise for
  \<open>EXPO_PUBLIC_APPWRITE_COLLECTION_ID\<close>; the rejection is rethrown to the caller.\<close>

theorem unset_appwrite_ids_reject:
  "(env ''EXPO_PUBLIC_APPWRITE_ENDPOINT'' = None \<longrightarrow> database env = Inl (TypeError endpoint_type_error)) \<and>
   (env ''EXPO_PUBLIC_APPWRITE_ENDPOINT'' \<noteq> None \<and> env ''EXPO_PUBLIC_APPWRITE_DATABASE_ID'' = None \<longrightarrow>
      (\<exists>api. database env = Inr api \<and>
         updateSearchCount api q m srv = Inl (StoreError (missing_param ''databaseId'')))) \<and>
   (env ''EXPO_PUBLIC_APPWRITE_ENDPOINT'' \<noteq> None \<and> env ''EXPO_PUBLIC_APPWRITE_DATABASE_ID'' \<noteq> None \<and>
    env ''EXPO_PUBLIC_APPWRITE_COLLECTION_ID'' = None \<longrightarrow>
      (\<exists>api. database env = Inr api \<and>
         updateSearchCount api q m srv = Inl (StoreError (missing_param ''collectionId''))))"
  by (auto simp: database_def client_of_def updateSearchCount_database_error server_collection_def
      db_target_def appwrite_config_of_def)

theorem unset_appwrite_ids_reject_witness:
  "database (\<lambda>_. None) = Inl (TypeError endpoint_type_error) \<and>
   (\<exists>api. database (\<lambda>v. if v = ''EXPO_PUBLIC_APPWRITE_ENDPOINT'' then Some ''https://cloud.appwrite.io/v1'' else None) = Inr api \<and>
      updateSearchCount api ''dune'' \<lparr>mv_id = 1, mv_title = ''Dune'', poster_path = None\<rparr> \<lparr>srv_endpoint = ''https://cloud.appwrite.io/v1'', srv_project = ''p'', collections = Map.empty\<rparr> = Inl (StoreError (missing_param ''databaseId''))) \<and>
   (\<exists>api. database (\<lambda>v. if v = ''EXPO_PUBLIC_APPWRITE_DATABASE_ID'' then Some ''db'' else if v = ''EXPO_PUBLIC_APPWRITE_ENDPOINT'' then Some ''https://cloud.appwrite.io/v1'' else None) = Inr api \<and>
      updateSearchCount api ''dune'' \<lparr>mv_id = 1, mv_title = ''Dune'', poster_path = None\<rparr> \<lparr>srv_endpoint = ''https://cloud.appwrite.io/v1'', srv_project = ''p'', collections = Map.empty\<rparr> = Inl (StoreError (missing_param ''collectionId'')))"
  using unset_appwrite_ids_reject [of "\<lambda>_. None" "''dune''" "\<lparr>mv_id = 1, mv_title = ''Dune'', poster_path = None\<rparr>" "\<lparr>srv_endpoint = ''https://cloud.appwrite.io/v1'', srv_project = ''p'', collections = Map.empty\<rparr>"]
        unset_appwrite_ids_reject [of "\<lambda>v. if v = ''EXPO_PUBLIC_APPWRITE_ENDPOINT'' then Some ''https://cloud.appwrite.io/v1'' else None" "''dune''" "\<lparr>mv_id = 1, mv_title = ''Dune'', poster_path = None\<rparr>" "\<lparr>srv_endpoint = ''https://cloud.appwrite.io/v1'', srv_project = ''p'', collections = Map.empty\<rparr>"]
        unset_appwrite_ids_reject [of "\<lambda>v. if v = ''EXPO_PUBLIC_APPWRITE_DATABASE_ID'' then Some ''db'' else if v = ''EXPO_PUBLIC_APPWRITE_ENDPOINT'' then Some ''https://cloud.appwrite.io/v1'' else None" "''dune''" "\<lparr>mv_id = 1, mv_title = ''Dune'', poster_path = None\<rparr>" "\<lparr>srv_endpoint = ''https://cloud.appwrite.io/v1'', srv_project = ''p'', collections = Map.empty\<rparr>"]
  by simp

end
