(* ===== verification/Routes.thy ===== *)
theory Routes
  imports IndexScreen
begin

text \<open>
  Navigation: the root layout of \<^verbatim>\<open>src/app/_layout.tsx\<close> (a hidden status bar and a
  \<open>Stack\<close> declaring the screens \<open>(tabs)\<close> and \<open>movies/[id]\<close>, both without header)
  and expo-router's file-based routing, which maps a URL to a route file of
  \<^verbatim>\<open>src/app\<close>: path segments are compared one by one, group directories \<open>(name)\<close>
  do not appear in URLs, a trailing \<open>index\<close> is the directory's own route, and a
  segment \<open>[param]\<close> matches any non-empty segment. The route files are those of the
  sources: \<^verbatim>\<open>(tabs)/index.tsx\<close> and \<^verbatim>\<open>(tabs)/search.tsx\<close>.
\<close>

section \<open>The root layout\<close>

record stack_screen =
  screen_name :: string
  headerShown :: bool

record root_layout =
  status_bar_hidden :: bool
  stack_screens :: "stack_screen list"

definition RootLayout :: root_layout where
  "RootLayout =
     \<lparr>status_bar_hidden = True,
      stack_screens = [\<lparr>screen_name = ''(tabs)'', headerShown = False\<rparr>,
                       \<lparr>screen_name = ''movies/[id]'', headerShown = False\<rparr>]\<rparr>"

section \<open>File-based routing\<close>

definition app_routes :: "string list" where
  "app_routes = [''(tabs)/index'', ''(tabs)/search'']"

fun split_segs :: "string \<Rightarrow> string \<Rightarrow> string list" where
  "split_segs acc [] = (if acc = [] then [] else [rev acc])"
| "split_segs acc (c # cs) =
     (if c = CHR ''/'' then (if acc = [] then split_segs [] cs else rev acc # split_segs [] cs)
      else split_segs (c # acc) cs)"

definition path_segments :: "string \<Rightarrow> string list" where
  "path_segments s = split_segs [] s"

definition is_group :: "string \<Rightarrow> bool" where
  "is_group seg \<longleftrightarrow> seg \<noteq> [] \<and> hd seg = CHR ''('' \<and> last seg = CHR '')''"

definition is_dynamic :: "string \<Rightarrow> bool" where
  "is_dynamic seg \<longleftrightarrow> seg \<noteq> [] \<and> hd seg = CHR ''['' \<and> last seg = CHR '']''"

definition route_pattern :: "string \<Rightarrow> string list" where
  "route_pattern file =
     (let segs = filter (\<lambda>x. \<not> is_group x) (path_segments file)
      in if segs \<noteq> [] \<and> last segs = ''index'' then butlast segs else segs)"

definition seg_match :: "string \<Rightarrow> string \<Rightarrow> bool" where
  "seg_match p a \<longleftrightarrow> (if is_dynamic p then a \<noteq> [] else p = a)"

definition route_matches :: "string \<Rightarrow> string \<Rightarrow> bool" where
  "route_matches file url \<longleftrightarrow> list_all2 seg_match (route_pattern file) (path_segments url)"

definition resolve_route :: "string list \<Rightarrow> string \<Rightarrow> string option" where
  "resolve_route files url = find (\<lambda>f. route_matches f url) files"

text \<open>The screen of the root \<open>Stack\<close> that hosts a route file: the declared screen whose
  name is a leading part of the file's path.\<close>

definition host_screen :: "root_layout \<Rightarrow> string \<Rightarrow> stack_screen option" where
  "host_screen lay file =
     find (\<lambda>s. take (length (path_segments (screen_name s))) (path_segments file) =
               path_segments (screen_name s)) (stack_screens lay)"

section \<open>Lemmas\<close>

lemma resolve_search: "resolve_route app_routes ''/search'' = Some ''(tabs)/search''"
  by code_simp

lemma resolve_home: "resolve_route app_routes ''/'' = Some ''(tabs)/index''"
  by code_simp

lemma host_tabs:
  "host_screen RootLayout ''(tabs)/search'' = Some \<lparr>screen_name = ''(tabs)'', headerShown = False\<rparr>"
  "host_screen RootLayout ''(tabs)/index'' = Some \<lparr>screen_name = ''(tabs)'', headerShown = False\<rparr>"
  by code_simp+

lemma movies_route_declared_only:
  "route_matches ''movies/[id]'' ''/movies/155'' \<and> resolve_route app_routes ''/movies/155'' = None"
  by code_simp

end
