(* ===== verification/Spec2Isabelle.thy ===== *)
theory Spec2Isabelle
  imports SearchScreen IndexScreen AppwriteClient Routes
begin

text \<open>
  Movie-app: a verification development of its data-fetching layer.

  \<^bold>\<open>The program.\<close> A React Native client (\<^verbatim>\<open>src/\<close>) that searches the TMDB movie
  API and counts searches in an Appwrite collection. Its logic sits in three services
  and two screens:
  \<^item> \<^verbatim>\<open>services/useFetch.ts\<close>: a hook turning a producer \<open>() => Promise<T>\<close> into the
    state \<open>{data, loading, error}\<close> with \<open>refetch\<close> (= \<open>fetchData\<close>) and \<open>reset\<close>;
  \<^item> \<^verbatim>\<open>services/api.ts\<close>: \<open>fetchMovies({query})\<close>, the TMDB request and its error;
  \<^item> \<^verbatim>\<open>services/appwrite.ts\<close>: \<open>updateSearchCount(query, movie)\<close>, a
    query-then-update-or-create on the collection;
  \<^item> \<^verbatim>\<open>app/(tabs)/search.tsx\<close>: the search screen, where a 500 ms timer on the input
    calls the hook's \<open>refetch\<close> or \<open>reset\<close>, and an effect on the results calls
    \<open>updateSearchCount\<close>;
  \<^item> \<^verbatim>\<open>app/(tabs)/index.tsx\<close>: the home screen with two auto-fetching hooks.

  \<^bold>\<open>Theories.\<close>
  \<^item> \<^theory_text>\<open>Prelude\<close>: JavaScript string operations the code relies on (\<open>js_trim\<close>,
    \<open>js_truthy_str\<close>, \<open>string_of_nat\<close> for \<open>${status}\<close>) with their lemmas.
  \<^item> \<^theory_text>\<open>UseFetch\<close>: the state record \<open>fetch_state\<close>; \<open>fetchData\<close> split at its
    \<open>await\<close> into \<open>fetchData_start\<close> and \<open>fetchData_settle\<close>; \<open>reset\<close>;
    \<open>ctl_mount\<close> for the \<open>autoFetch\<close> effect. Because calls overlap, the
    \<open>controller\<close> record keeps the calls in flight and \<open>ctl_step\<close>/\<open>ctl_run\<close> run
    any interleaving of \<open>Trigger\<close>, \<open>Settle\<close> and \<open>Reset\<close>. The spec's contract is
    \<open>gen_controller\<close>: a generation counter that discards stale settlements, with the
    state changes of section 4.1 written from its words (\<open>gen_step\<close>,
    \<open>spec_error_info\<close>), not from the code's functions.
    Lemmas: the invariant \<open>ctl_inv\<close> on all reachable states
    (\<open>ctl_reachable_inv\<close>), each operation's behaviour (\<open>fetchData_branches\<close>,
    \<open>ctl_settle_last_wins\<close>),
    refinement of the contract on stale-free traces (\<open>ctl_refines_gen_controller\<close>),
    and the traces where the code departs from it (\<open>stale_settle_resurrects_data\<close>,
    \<open>loading_cleared_while_in_flight\<close>). Liveness: settling every call
    in flight, in any order, empties the calls in flight and clears \<open>loading\<close>
    (\<open>settle_all_clears_loading\<close>).
  \<^item> \<^theory_text>\<open>Api\<close>: \<open>TMDB_CONFIG\<close>, \<open>fetchMovies_endpoint\<close>, \<open>fetchMovies_request\<close>,
    \<open>fetchMovies\<close> over a network given as a function from request to response or
    thrown value, returning the \<open>outcome\<close> the hook consumes; \<open>encodeURIComponent\<close>
    on byte strings. Lemmas: the query round-trips through the URL and cannot inject
    parameters (\<open>search_endpoint_roundtrip\<close>), the HTTP error message carries the
    status (\<open>fetchMovies_http_error\<close>). The API key is the environment variable as an
    option; unset, it is sent as \<open>Bearer undefined\<close> (\<open>unset_api_key_request\<close>).
  \<^item> \<^theory_text>\<open>Appwrite\<close>: \<open>movie\<close>, \<open>search_doc\<close>, the client interface \<open>store_api\<close>,
    \<open>updateSearchCount\<close> as \<open>usc_query\<close> then \<open>usc_write\<close>; \<open>mem_api\<close> models
    the collection (from the spec: a list of documents with fresh identifiers);
    \<open>run_schedule\<close> interleaves the phases of concurrent calls. Lemmas: the collection
    invariant \<open>store_inv\<close> and exact count increment (\<open>updateSearchCount_inv\<close>),
    error passthrough for
    any store (\<open>updateSearchCount_error_passthrough\<close>), the absent-poster URL
    (\<open>updateSearchCount_poster_undefined\<close>), and the races: duplicate documents
    (\<open>concurrent_new_term_duplicates\<close>), lost increments
    (\<open>concurrent_increment_lost\<close>), and the bounds for N concurrent calls under any
    interleaving, with the invariant \<open>race_inv\<close> and the ghost-counted invariant
    \<open>count_inv\<close> (a per-document count of completed writes bounds each count, so the
    total never exceeds the calls made) (\<open>concurrent_recorders_bounds\<close>).
  \<^item> \<^theory_text>\<open>ListView\<close>: the \<open>FlatList\<close> props both screens set: \<open>flat_list_of\<close>
    (items of \<open>data\<close>, keys by \<open>keyExtractor\<close>, lines of \<open>numColumns\<close> cells by
    \<open>grid_rows\<close>), the keys \<open>movie_key\<close> and \<open>trending_key\<close> built with
    \<open>js_int_toString\<close> (\<open>Number.prototype.toString\<close>); the screens' lemmas use
    them.
  \<^item> \<^theory_text>\<open>SearchScreen\<close>: the record \<open>search_screen\<close> (query, pending timer with the
    values its callback closed over, the hook's controller, the \<open>updateSearchCount\<close>
    calls made, mounted flag) and one operation per handler: \<open>on_change_text\<close>,
    \<open>timer_fires\<close>, \<open>fetch_settles\<close> (the hook's settlement, the \<open>[movies]\<close> effect
    \<open>movies_effect\<close>, the timer callback's continuation \<open>timer_continuation\<close>), and
    \<open>leave\<close>; \<open>search_run\<close> runs a list of events. Lemmas: debouncing
    (\<open>debounce_commits_last_value\<close>), no blank term is ever
    searched or recorded (\<open>requests_not_blank\<close>, \<open>issued_terms_not_blank\<close>, by
    the invariants \<open>requests_ok\<close> and \<open>issued_ok\<close>), one record per successful
    non-empty settlement and the dead call site (\<open>fetch_settles_issued\<close>), traces
    where the recorded term or the shown results are stale
    (\<open>recorded_term_is_current_query\<close>, \<open>cleared_query_shows_stale_results\<close>),
    nothing happens after leaving (\<open>leave_is_final\<close>); every reachable state satisfies
    the well-formedness predicate \<open>search_wf\<close>: a well-formed controller, and a pending
    timer only on a mounted screen, carrying the query on screen
    (\<open>search_reachable_wf\<close>). \<open>search_view_of\<close> is
    what the list header and empty component show (\<open>no_movies_found_before_search\<close>);
    \<open>search_list\<close> is the results grid. Liveness of the
    spinner: settling every call in flight on a mounted screen clears \<open>loading\<close>
    (\<open>search_settle_all_clears_spinner\<close>, through \<open>fetch_settles_ctl\<close>).
  \<^item> \<^theory_text>\<open>IndexScreen\<close>: the two controllers of the home screen and the choice of view,
    with the content branch as the record \<open>index_content\<close>;
    the missing \<open>getTrendingMovies\<close> makes it always end on the error text
    (\<open>index_never_shows_content\<close>), and which message that text is, per outcome of
    the latest-movies request (\<open>index_error_text\<close>). A network failure shows the message \<open>fetch\<close> rejects
    with, not the status message the comment at \<^verbatim>\<open>api.ts:37\<close> announces.
  \<^item> \<^theory_text>\<open>AppwriteClient\<close>: lines 5-13 of \<^verbatim>\<open>services/appwrite.ts\<close>: the
    identifiers read from \<open>process.env\<close> (\<open>appwrite_config_of\<close>, unset ones are
    \<open>None\<close>), the client (\<open>client_of\<close>, which fails with the \<open>TypeError\<close> of
    \<open>setEndpoint(undefined)\<close> when the endpoint is unset, failing the module's load)
    and the exported \<open>database\<close> (a \<open>load_error\<close> or the handle). The server is
    modelled from the spec and the SDK's contract: \<open>db_target\<close> rejects an undefined
    identifier with the SDK's message \<open>missing_param\<close>, \<open>server_collection\<close> finds the addressed collection of the project, and
    \<open>database_api\<close> runs \<open>mem_api\<close>'s operations on it, writing it back with
    \<open>server_put\<close>. Lemmas: a call on the handle is the same call on the addressed
    collection (\<open>updateSearchCount_database\<close>); an unset endpoint fails the load and
    unset identifiers reject every call (\<open>unset_appwrite_ids_reject\<close>). The SDK's
    check of the endpoint's URL scheme (in some SDK versions) is not modelled.
  \<^item> \<^theory_text>\<open>Routes\<close>: \<^verbatim>\<open>_layout.tsx\<close> as the record \<open>RootLayout\<close> (hidden status
    bar, the \<open>Stack\<close> screens and their \<open>headerShown\<close> option) and expo-router's
    file-based resolution (\<open>resolve_route\<close> over the route files \<open>app_routes\<close>,
    with group segments, \<open>index\<close> and dynamic segments), from its documented rules.
    Lemmas evaluate the resolution of the sources' URLs; the declared
    \<open>movies/[id]\<close> screen has no route file in the sources
    (\<open>movies_route_declared_only\<close>).
  \<^item> This theory: \<open>apply_issued\<close> runs the screen's recorder calls, one after the
    other, against any store; end to end, every run of the screen, sent through
    the handle to a consistent collection, keeps it consistent and counts each recorded
    term exactly once per recording (\<open>screen_searches_counted\<close>, by
    \<open>apply_issued_database_counts\<close>); the spec's end-to-end scenarios (\<open>batman_scenario\<close>,
    \<open>network_failure_keeps_data\<close>) and the untrimmed term (\<open>untrimmed_term_used\<close>).

  \<^bold>\<open>Modelling choices.\<close> Time is the order of events: a timer replaced before it fires
  never fires, and any order of settlements is allowed. React state updates are applied
  in program order, batched per handler. Strings are byte strings; \<open>js_trim\<close> removes
  ASCII whitespace only. JavaScript numbers are \<open>int\<close>/\<open>nat\<close>: counts and statuses do
  not approach the limits of a double in these paths. No loop of the code is unbounded,
  so no fuel is needed; every recursive definition is structural. The scheduler of
  concurrent recorders takes its schedule as an argument and recurses on it.

  \<^bold>\<open>Not modelled.\<close> The JSX styling (class names, images, scroll views, the
  logo, list styles) and the rendering of cards beyond the choice of what each screen
  shows and the cells, keys and lines of its lists: these lines carry no state or logic,
  and they, the imports and the comments are the part of the sources the map leaves out.
  The router's transitions and screen stack beyond resolving a URL to its route file and
  hosting screen; the components and assets the screens import (not in the sources);
  \<open>console.log\<close>; the servers of both services beyond the behaviour the spec and the
  SDK contract state (permissions, persistence, ordering of concurrent requests beyond
  the interleavings \<open>run_schedule\<close> allows).
\<close>

section \<open>Searches reaching the analytics store\<close>

text \<open>The screen's \<open>updateSearchCount\<close> calls, applied to the collection one after the
  other in the order the screen makes them (the schedule in which no two overlap).\<close>

fun apply_issued :: "'s store_api \<Rightarrow> 's \<Rightarrow> (string \<times> movie) list \<Rightarrow> store_error + 's" where
  "apply_issued api s [] = Inr s"
| "apply_issued api s ((q, m) # xs) =
     (case updateSearchCount api q m s of Inl e \<Rightarrow> Inl e | Inr s' \<Rightarrow> apply_issued api s' xs)"

text \<open>C9: the spec's scenario end to end: the input becomes \<open>batman\<close>, the timer fires,
  the search resolves with \<open>The Batman\<close> (id 155, poster \<open>/abc.jpg\<close>) first; then the
  list is shown, nothing loads, no error is shown, exactly one search is recorded, and on
  a collection without \<open>batman\<close> it creates the document with count 1, movie 155, the
  title and the full poster URL.\<close>

theorem batman_scenario:
  assumes "\<forall>d\<in>set (docs s). searchTerm d \<noteq> ''batman''"
  shows "(let m = \<lparr>mv_id = 155, mv_title = ''The Batman'', poster_path = Some ''/abc.jpg''\<rparr>;
              st = search_run key search_mount
                     [Type ''batman'', TimerFires, FetchSettles 0 (Inr \<lparr>status = 200, results = m # ms\<rparr>)]
          in fstate (movies_ctl st) = \<lparr>data = Some (m # ms), loading = False, error = None\<rparr> \<and>
             issued st = [(''batman'', m)] \<and>
             apply_issued mem_api s (issued st) =
               Inr (s\<lparr>docs := docs s @ [\<lparr>doc_id = next_uid s, searchTerm = ''batman'', movie_id = 155,
                                           doc_count = 1, doc_title = ''The Batman'',
                                           poster_url = ''https://image.tmdb.org/t/p/w500/abc.jpg''\<rparr>],
                      next_uid := Suc (next_uid s)\<rparr>))"
  using assms
  by (simp add: trace_simps updateSearchCount_def no_doc_filter_Nil mem_defs poster_url_of_def
      poster_prefix_def)

theorem batman_scenario_witness:
  "let m = \<lparr>mv_id = 155, mv_title = ''The Batman'', poster_path = Some ''/abc.jpg''\<rparr>;
       st = search_run (Some ''k'') search_mount
              [Type ''batman'', TimerFires, FetchSettles 0 (Inr \<lparr>status = 200, results = [m]\<rparr>)]
   in fstate (movies_ctl st) = \<lparr>data = Some [m], loading = False, error = None\<rparr> \<and>
      issued st = [(''batman'', m)] \<and>
      apply_issued mem_api \<lparr>docs = [], next_uid = 0\<rparr> (issued st) =
        Inr \<lparr>docs = [\<lparr>doc_id = 0, searchTerm = ''batman'', movie_id = 155, doc_count = 1,
                       doc_title = ''The Batman'', poster_url = ''https://image.tmdb.org/t/p/w500/abc.jpg''\<rparr>],
             next_uid = 1\<rparr>"
  using batman_scenario [of "\<lparr>docs = [], next_uid = 0\<rparr>" "(Some ''k'')" "[]"] by simp

text \<open>C25: the input is not trimmed before use: typing \<open> batman \<close> searches for the
  padded string (its spaces percent-encoded in the request) and records the padded
  string as the search term, a different key from \<open>batman\<close>.\<close>

theorem untrimmed_term_used:
  "let st = search_run key search_mount [Type '' batman '', TimerFires]
   in map_of (inflight (movies_ctl st)) 0 = Some ('' batman '', None) \<and>
      fetchMovies_endpoint key '' batman '' =
        ''https://api.themoviedb.org/3/search/movie?query=%20batman%20'' \<and>
      issued (search_run key st [FetchSettles 0 (Inr \<lparr>status = 200, results = m # ms\<rparr>)]) =
        [('' batman '', m)]"
proof -
  have "encodeURIComponent '' batman '' = ''%20batman%20''"
    by code_simp
  then show ?thesis
    by (simp add: trace_simps fetchMovies_endpoint_def TMDB_CONFIG_def js_truthy_str_def)
qed

text \<open>C18: the spec's failure scenario: after a successful search, a second search whose
  request fails in the network shows the failure's message, stops loading, keeps the
  earlier results and records nothing more. The message shown is the one \<open>fetch\<close>
  rejects with: the request never reaches the \<open>!response.ok\<close> check, although the
  comment at \<^verbatim>\<open>api.ts:37\<close> says a network failure is reported there.\<close>

theorem network_failure_keeps_data:
  "let st = search_run key search_mount
              [Type ''bat'', TimerFires, FetchSettles 0 (Inr \<lparr>status = 200, results = m # ms\<rparr>),
               Type ''batman'', TimerFires, FetchSettles 1 (Inl (ThrownError msg))]
   in fstate (movies_ctl st) = \<lparr>data = Some (m # ms), loading = False, error = Some msg\<rparr> \<and>
      issued st = [(''bat'', m)]"
  by (simp add: trace_simps)

text \<open>One call on a consistent collection: it succeeds, keeps the invariant and adds one
  to the count of its term only.\<close>

lemma usc_mem_inv:
  assumes "store_inv s"
  shows "\<exists>s'. updateSearchCount mem_api q m s = Inr s' \<and> store_inv s' \<and>
            (\<forall>q'. term_count s' q' = term_count s q' + (if q' = q then 1 else 0))"
proof (cases "\<exists>d\<in>set (docs s). searchTerm d = q")
  case True
  then obtain d where "d \<in> set (docs s)" "searchTerm d = q" by blast
  from usc_mem_existing_inv [OF assms this, of m] obtain s' where
    "updateSearchCount mem_api q m s = Inr s'" "store_inv s'" "term_count s' q = term_count s q + 1"
    "\<forall>q'. q' \<noteq> q \<longrightarrow> term_count s' q' = term_count s q'" by blast
  then show ?thesis by (intro exI [of _ s']) auto
next
  case False
  from usc_mem_new_inv [OF assms, of q m] False obtain s' where
    "updateSearchCount mem_api q m s = Inr s'" "store_inv s'" "term_count s' q = term_count s q + 1"
    "\<forall>q'. q' \<noteq> q \<longrightarrow> term_count s' q' = term_count s q'" by blast
  then show ?thesis by (intro exI [of _ s']) auto
qed

lemma term_count_nonneg: "store_inv s \<Longrightarrow> 0 \<le> term_count s q"
  unfolding term_count_def by (intro sum_list_nonneg) (fastforce simp: store_inv_def)

lemma apply_issued_database_counts:
  assumes "server_collection cl cfg srv = Inr st" and "store_inv st"
  shows "\<exists>srv' st'. apply_issued (database_api cl cfg) srv xs = Inr srv' \<and>
            server_collection cl cfg srv' = Inr st' \<and> store_inv st' \<and>
            (\<forall>q. term_count st' q = term_count st q + int (length (filter (\<lambda>x. fst x = q) xs)))"
  using assms
proof (induction xs arbitrary: srv st)
  case Nil
  then show ?case by simp
next
  case (Cons x xs)
  obtain q m where x: "x = (q, m)" by (cases x)
  obtain s1 where run: "updateSearchCount mem_api q m st = Inr s1" and inv1: "store_inv s1"
    and cnt1: "\<forall>q'. term_count s1 q' = term_count st q' + (if q' = q then 1 else 0)"
    using usc_mem_inv [OF Cons.prems(2)] by blast
  have db: "updateSearchCount (database_api cl cfg) q m srv = Inr (server_put cfg srv s1)"
    using updateSearchCount_database [OF Cons.prems(1)] run by simp
  obtain srv' st' where rest: "apply_issued (database_api cl cfg) (server_put cfg srv s1) xs = Inr srv'"
    and sc: "server_collection cl cfg srv' = Inr st'" and inv': "store_inv st'"
    and cnt: "\<forall>q'. term_count st' q' = term_count s1 q' + int (length (filter (\<lambda>x. fst x = q') xs))"
    using Cons.IH [OF server_collection_put [OF Cons.prems(1)] inv1] by blast
  have "\<forall>q'. term_count st' q' = term_count st q' + int (length (filter (\<lambda>x. fst x = q') (x # xs)))"
    using cnt cnt1 x by auto
  with db rest sc inv' x show ?case by auto
qed

text \<open>C10: the whole pipeline, from the keyboard to the collection: in any run of the
  search screen, the searches it records, sent one after the other through the
  configured Appwrite handle to a consistent collection, all succeed; the collection
  stays consistent (one document per term, counts at least 1), each term's count grows by
  exactly the number of times the screen recorded it, and every recorded term is a
  non-blank string whose count is then at least 1.\<close>

theorem screen_searches_counted:
  assumes "server_collection cl cfg srv = Inr st" and "store_inv st"
  shows "\<exists>srv' st'. apply_issued (database_api cl cfg) srv (issued (search_run key search_mount es)) = Inr srv' \<and>
            server_collection cl cfg srv' = Inr st' \<and> store_inv st' \<and>
            (\<forall>q. term_count st' q =
                   term_count st q + int (length (filter (\<lambda>x. fst x = q) (issued (search_run key search_mount es))))) \<and>
            (\<forall>x\<in>set (issued (search_run key search_mount es)). js_trim (fst x) \<noteq> [] \<and> 1 \<le> term_count st' (fst x))"
proof -
  let ?xs = "issued (search_run key search_mount es)"
  obtain srv' st' where run: "apply_issued (database_api cl cfg) srv ?xs = Inr srv'"
    and sc: "server_collection cl cfg srv' = Inr st'" and inv: "store_inv st'"
    and cnt: "\<forall>q. term_count st' q = term_count st q + int (length (filter (\<lambda>x. fst x = q) ?xs))"
    using apply_issued_database_counts [OF assms] by blast
  have ok: "\<forall>x\<in>set ?xs. js_trim (fst x) \<noteq> []"
    using run_issued_ok [of search_mount key es] by (simp add: issued_ok_def search_mount_def)
  have "1 \<le> term_count st' (fst x)" if "x \<in> set ?xs" for x
  proof -
    have "0 < length (filter (\<lambda>y. fst y = fst x) ?xs)"
      using that by (force simp: filter_empty_conv)
    then have "(1::int) \<le> int (length (filter (\<lambda>y. fst y = fst x) ?xs))" by linarith
    moreover have "term_count st' (fst x) =
                     term_count st (fst x) + int (length (filter (\<lambda>y. fst y = fst x) ?xs))"
      using cnt by blast
    ultimately show ?thesis using term_count_nonneg [OF assms(2), of "fst x"] by linarith
  qed
  with run sc inv cnt ok show ?thesis by blast
qed

theorem screen_searches_counted_witness:
  "\<exists>srv' st'. apply_issued (database_api \<lparr>cl_endpoint = ''e'', cl_project = Some ''p''\<rparr>
                   \<lparr>DATABASE_ID = Some ''db'', COLLECTION_ID = Some ''searches'', ENDPOINT = Some ''e'',
                    PROJECT_ID = Some ''p''\<rparr>)
        \<lparr>srv_endpoint = ''e'', srv_project = ''p'', collections = [(''db'', ''searches'') \<mapsto> \<lparr>docs = [], next_uid = 0\<rparr>]\<rparr>
        (issued (search_run (Some ''k'') search_mount
           [Type ''dune'', TimerFires,
            FetchSettles 0 (Inr \<lparr>status = 200, results = [\<lparr>mv_id = 7, mv_title = ''Dune'', poster_path = None\<rparr>]\<rparr>)])) =
          Inr srv' \<and> term_count st' ''dune'' = 1"
proof -
  let ?cl = "\<lparr>cl_endpoint = ''e'', cl_project = Some ''p''\<rparr>"
  let ?cfg = "\<lparr>DATABASE_ID = Some ''db'', COLLECTION_ID = Some ''searches'', ENDPOINT = Some ''e'',
               PROJECT_ID = Some ''p''\<rparr>"
  let ?srv = "\<lparr>srv_endpoint = ''e'', srv_project = ''p'',
               collections = [(''db'', ''searches'') \<mapsto> \<lparr>docs = [], next_uid = 0\<rparr>]\<rparr>"
  let ?es = "[Type ''dune'', TimerFires,
              FetchSettles 0 (Inr \<lparr>status = 200, results = [\<lparr>mv_id = 7, mv_title = ''Dune'', poster_path = None\<rparr>]\<rparr>)]"
  have h1: "server_collection ?cl ?cfg ?srv = Inr \<lparr>docs = [], next_uid = 0\<rparr>"
    by (simp add: server_collection_def db_target_def)
  have h2: "store_inv \<lparr>docs = [], next_uid = 0\<rparr>" by (simp add: store_inv_def)
  have iss: "issued (search_run (Some ''k'') search_mount ?es) =
               [(''dune'', \<lparr>mv_id = 7, mv_title = ''Dune'', poster_path = None\<rparr>)]"
    by (simp add: trace_simps)
  obtain srv' st' where "apply_issued (database_api ?cl ?cfg) ?srv (issued (search_run (Some ''k'') search_mount ?es)) = Inr srv'"
    and "\<forall>q. term_count st' q = term_count \<lparr>docs = [], next_uid = 0\<rparr> q +
               int (length (filter (\<lambda>x. fst x = q) (issued (search_run (Some ''k'') search_mount ?es))))"
    using screen_searches_counted [OF h1 h2, of "Some ''k''" ?es] by blast
  moreover from this(2) iss have "term_count st' ''dune'' = 1" by (simp add: term_count_def)
  ultimately show ?thesis by blast
qed

end
